theory Spec2Isabelle
  imports Main
begin

section \<open>Go strings and the functions of package \<open>strings\<close> the parser calls\<close>

text \<open>
  A Go string is a sequence of bytes, and so is an Isabelle \<open>string\<close> (a list of 8-bit
  characters). Indices into a string count bytes on both sides.
\<close>

definition byte :: "char \<Rightarrow> nat" where
  "byte c = of_char c"

text \<open>
  \<open>unicode.IsSpace\<close>, as the UTF-8 encodings of the white space code points:
  U+0009..U+000D, U+0020, U+0085, U+00A0, U+1680, U+2000..U+200A, U+2028, U+2029,
  U+202F, U+205F and U+3000.
\<close>

definition spaceRunes :: "string list" where
  "spaceRunes =
    [[CHR 0x09], [CHR 0x0A], [CHR 0x0B], [CHR 0x0C], [CHR 0x0D], [CHR 0x20],
     [CHR 0xC2, CHR 0x85], [CHR 0xC2, CHR 0xA0],
     [CHR 0xE1, CHR 0x9A, CHR 0x80],
     [CHR 0xE2, CHR 0x80, CHR 0x80], [CHR 0xE2, CHR 0x80, CHR 0x81],
     [CHR 0xE2, CHR 0x80, CHR 0x82], [CHR 0xE2, CHR 0x80, CHR 0x83],
     [CHR 0xE2, CHR 0x80, CHR 0x84], [CHR 0xE2, CHR 0x80, CHR 0x85],
     [CHR 0xE2, CHR 0x80, CHR 0x86], [CHR 0xE2, CHR 0x80, CHR 0x87],
     [CHR 0xE2, CHR 0x80, CHR 0x88], [CHR 0xE2, CHR 0x80, CHR 0x89],
     [CHR 0xE2, CHR 0x80, CHR 0x8A],
     [CHR 0xE2, CHR 0x80, CHR 0xA8], [CHR 0xE2, CHR 0x80, CHR 0xA9],
     [CHR 0xE2, CHR 0x80, CHR 0xAF],
     [CHR 0xE2, CHR 0x81, CHR 0x9F],
     [CHR 0xE3, CHR 0x80, CHR 0x80]]"

text \<open>
  \<open>strings.HasPrefix\<close> and \<open>strings.TrimPrefix\<close>.
\<close>

definition HasPrefix :: "string \<Rightarrow> string \<Rightarrow> bool" where
  "HasPrefix s p = (take (length p) s = p)"

definition TrimPrefix :: "string \<Rightarrow> string \<Rightarrow> string" where
  "TrimPrefix s p = (if HasPrefix s p then drop (length p) s else s)"

text \<open>
  \<open>strings.TrimSpace\<close> removes leading and trailing white space runes. From the left
  it decodes one rune at a time and stops at the first that is not white space; the
  encodings above are valid UTF-8, so the string starts with a white space rune exactly
  when it starts with one of them. From the right \<open>utf8.DecodeLastRuneInString\<close> walks
  back over continuation bytes to the lead byte, so the string ends with a white space
  rune exactly when it ends with one of the encodings: the reversed string starts with a
  reversed encoding.
\<close>

function trimLeftRunes :: "string list \<Rightarrow> string \<Rightarrow> string" where
  "trimLeftRunes ws s =
     (case find (\<lambda>w. HasPrefix s w) ws of
        None \<Rightarrow> s
      | Some w \<Rightarrow> if w = [] then s else trimLeftRunes ws (drop (length w) s))"
  by pat_completeness auto
termination
proof (relation "measure (\<lambda>(ws, s). length s)")
  show "wf (measure (\<lambda>(ws, s). length s))" by simp
next
  fix s :: string and w :: string and ws
  assume f: "find (\<lambda>w. HasPrefix s w) ws = Some w" and ne: "w \<noteq> []"
  from f have "take (length w) s = w" by (auto simp: find_Some_iff HasPrefix_def)
  then have "length (take (length w) s) = length w" by simp
  then have "length w \<le> length s" by simp
  moreover from ne have "0 < length w" by simp
  ultimately have "length s - length w < length s" by arith
  then show "((ws, drop (length w) s), (ws, s)) \<in> measure (\<lambda>(ws, s). length s)"
    by simp
qed

declare trimLeftRunes.simps [simp del]

definition trimLeftSpace :: "string \<Rightarrow> string" where
  "trimLeftSpace s = trimLeftRunes spaceRunes s"

definition trimRightSpace :: "string \<Rightarrow> string" where
  "trimRightSpace s = rev (trimLeftRunes (map rev spaceRunes) (rev s))"

definition TrimSpace :: "string \<Rightarrow> string" where
  "TrimSpace s = trimRightSpace (trimLeftSpace s)"

text \<open>
  \<open>strings.Index\<close> gives the byte offset of the first occurrence of \<open>sub\<close> in \<open>s\<close>;
  Go's \<open>-1\<close> is \<open>None\<close>. \<open>strings.Contains\<close> asks whether there is one.
\<close>

fun Index :: "string \<Rightarrow> string \<Rightarrow> nat option" where
  "Index [] sub = (if sub = [] then Some 0 else None)"
| "Index (c # s) sub =
     (if HasPrefix (c # s) sub then Some 0 else map_option Suc (Index s sub))"

definition Contains :: "string \<Rightarrow> string \<Rightarrow> bool" where
  "Contains s sub = (Index s sub \<noteq> None)"

text \<open>
  \<open>strings.Split\<close> with a separator of one byte, which is how the repository calls it
  (\<open>","\<close> and \<open>";"\<close>): the pieces between the separators, one more than there are
  separators, so never an empty list. \<open>strings.Join\<close> is its inverse.
\<close>

fun Split :: "string \<Rightarrow> char \<Rightarrow> string list" where
  "Split [] sep = [[]]"
| "Split (c # s) sep =
     (if c = sep then [] # Split s sep
      else (case Split s sep of p # ps \<Rightarrow> (c # p) # ps | [] \<Rightarrow> [[c]]))"

fun Join :: "string list \<Rightarrow> string \<Rightarrow> string" where
  "Join [] sep = []"
| "Join [x] sep = x"
| "Join (x # y # xs) sep = x @ sep @ Join (y # xs) sep"

section \<open>The data model (package \<open>parser\<close>, types)\<close>

datatype VariableType =
  TypeString | TypeInt | TypeNumeric | TypeBoolean | TypeEnum | TypeObject

fun String :: "VariableType \<Rightarrow> string" where
  "String TypeString = ''string''"
| "String TypeInt = ''int''"
| "String TypeNumeric = ''numeric''"
| "String TypeBoolean = ''boolean''"
| "String TypeEnum = ''enum''"
| "String TypeObject = ''object''"

definition ParseVariableType :: "string \<Rightarrow> VariableType" where
  "ParseVariableType s =
     (if s = ''string'' then TypeString
      else if s = ''int'' then TypeInt
      else if s = ''numeric'' then TypeNumeric
      else if s = ''boolean'' then TypeBoolean
      else if s = ''enum'' then TypeEnum
      else if s = ''object'' then TypeObject
      else TypeString)"

record Constraint =
  CName :: string
  CValue :: string

record Annotation =
  PromptText :: string
  Type :: VariableType
  Constraints :: "Constraint list"
  IsOptional :: bool
  IsSecret :: bool

fun firstConstraint :: "Constraint list \<Rightarrow> string \<Rightarrow> string" where
  "firstConstraint [] name = []"
| "firstConstraint (c # cs) name =
     (if CName c = name then CValue c else firstConstraint cs name)"

definition GetConstraint :: "Annotation \<Rightarrow> string \<Rightarrow> string" where
  "GetConstraint a name = firstConstraint (Constraints a) name"

record Variable =
  Name :: string
  Value :: string
  Annotation :: "Annotation option"
  LineNumber :: nat
  IsSet :: bool

record Comment =
  Text :: string
  CommentLine :: nat

record KrakenvConfig =
  Environments :: "string list"
  Strict :: bool
  DistPath :: string

record EnvFile =
  Path :: string
  Variables :: "Variable list"
  Config :: "KrakenvConfig option"
  Comments :: "Comment list"

section \<open>The lexer\<close>

text \<open>
  \<open>variableNamePattern\<close> is the regular expression \<open>^[A-Z][A-Z0-9_]*$\<close>; without the
  multi-line flag \<open>^\<close> and \<open>$\<close> match at the two ends of the text only.
\<close>

definition isUpper :: "char \<Rightarrow> bool" where
  "isUpper c = (65 \<le> byte c \<and> byte c \<le> 90)"

definition isDigit :: "char \<Rightarrow> bool" where
  "isDigit c = (48 \<le> byte c \<and> byte c \<le> 57)"

definition variableNamePattern :: "string \<Rightarrow> bool" where
  "variableNamePattern s =
     (case s of [] \<Rightarrow> False
      | c # cs \<Rightarrow> isUpper c \<and> list_all (\<lambda>d. isUpper d \<or> isDigit d \<or> d = CHR ''_'') cs)"

datatype LexError = ErrInvalidVariableName

definition parseValue :: "string \<Rightarrow> string" where
  "parseValue s0 =
     (let s = TrimSpace s0 in
      if s = [] then []
      else if length s \<ge> 2 \<and> hd s = CHR 0x22 \<and> last s = CHR 0x22
        then take (length s - 2) (drop 1 s)
      else if length s \<ge> 2 \<and> hd s = CHR 0x27 \<and> last s = CHR 0x27
        then take (length s - 2) (drop 1 s)
      else s)"

definition TokenizeLine :: "string \<Rightarrow> string \<times> string \<times> string \<times> LexError option" where
  "TokenizeLine line0 =
     (let line = TrimSpace line0 in
      if line = [] then ([], [], [], None)
      else if HasPrefix line ''#'' then ([], [], [], None)
      else (case Index line ''='' of
        None \<Rightarrow> ([], [], [], None)
      | Some eqIdx \<Rightarrow>
         (let name = TrimSpace (take eqIdx line) in
          if name = [] then ([], [], [], None)
          else if \<not> variableNamePattern name then ([], [], [], Some ErrInvalidVariableName)
          else
           (let rest = drop (eqIdx + 1) line in
            (case Index rest '' #prompt:'' of
               None \<Rightarrow> (name, parseValue (TrimSpace rest), [], None)
             | Some annotationIdx \<Rightarrow>
                 (name,
                  parseValue (TrimSpace (take annotationIdx rest)),
                  TrimSpace (drop (annotationIdx + 1) rest),
                  None))))))"

definition IsComment :: "string \<Rightarrow> bool" where
  "IsComment line = HasPrefix (TrimSpace line) ''#''"

definition IsEmptyLine :: "string \<Rightarrow> bool" where
  "IsEmptyLine line = (TrimSpace line = [])"

definition IsAnnotationLine :: "string \<Rightarrow> bool" where
  "IsAnnotationLine line = Contains line '' #prompt:''"

definition ExtractCommentText :: "string \<Rightarrow> string" where
  "ExtractCommentText line0 =
     (let line = TrimSpace line0 in
      if HasPrefix line ''#'' then TrimSpace (drop 1 line) else [])"

section \<open>Package \<open>config\<close>\<close>

definition DefaultConfig :: KrakenvConfig where
  "DefaultConfig = \<lparr>Environments = [''local''], Strict = False, DistPath = ''.env.dist''\<rparr>"

text \<open>
  \<open>strings.SplitN(s, sep, 2)\<close>: the text before the first separator and all the text
  after it, or the whole of \<open>s\<close> alone when there is no separator.
\<close>

definition SplitN2 :: "string \<Rightarrow> string \<Rightarrow> string list" where
  "SplitN2 s sep =
     (case Index s sep of
        None \<Rightarrow> [s]
      | Some i \<Rightarrow> [take i s, drop (i + length sep) s])"

definition ParseConfigLine :: "string \<Rightarrow> string \<times> string" where
  "ParseConfigLine line0 =
     (let line = TrimSpace line0 in
      if \<not> HasPrefix line ''#krakenv:'' then ([], [])
      else
        (let content = TrimPrefix line ''#krakenv:'';
             parts = SplitN2 content ''='' in
         if length parts \<noteq> 2 then ([], [])
         else (TrimSpace (parts ! 0), TrimSpace (parts ! 1))))"

definition IsConfigLine :: "string \<Rightarrow> bool" where
  "IsConfigLine line = HasPrefix (TrimSpace line) ''#krakenv:''"

text \<open>The inner loop of \<open>ParseConfig\<close> over the comma-separated environments.\<close>

fun appendEnvs :: "string list \<Rightarrow> string list \<Rightarrow> string list" where
  "appendEnvs acc [] = acc"
| "appendEnvs acc (e # envs) =
     (let env = TrimSpace e in
      if env \<noteq> [] then appendEnvs (acc @ [env]) envs else appendEnvs acc envs)"

text \<open>The body of the loop of \<open>ParseConfig\<close> over the lines.\<close>

definition applyConfigLine :: "KrakenvConfig \<Rightarrow> string \<Rightarrow> KrakenvConfig" where
  "applyConfigLine config line =
     (case ParseConfigLine line of (key, value) \<Rightarrow>
        if key = [] then config
        else if key = ''environments''
          then config\<lparr>Environments := appendEnvs [] (Split value CHR '','')\<rparr>
        else if key = ''strict''
          then config\<lparr>Strict := (value = ''true'' \<or> value = ''1'' \<or> value = ''yes'')\<rparr>
        else if key = ''distPath''
          then (if value \<noteq> [] then config\<lparr>DistPath := value\<rparr> else config)
        else config)"

definition ParseConfig :: "string list \<Rightarrow> KrakenvConfig" where
  "ParseConfig lines = foldl applyConfigLine DefaultConfig lines"

definition FormatConfigLine :: "string \<Rightarrow> string \<Rightarrow> string" where
  "FormatConfigLine key value = ''#krakenv:'' @ key @ ''='' @ value"

definition FormatConfig :: "KrakenvConfig \<Rightarrow> string list" where
  "FormatConfig config =
     (if length (Environments config) > 0
        then [FormatConfigLine ''environments'' (Join (Environments config) '','')] else [])
     @ (if Strict config then [FormatConfigLine ''strict'' ''true''] else [])"

section \<open>The annotation parser\<close>

datatype AnnotationError = MissingPrefix | MissingSeparator | MissingType

definition knownConstraints :: "string \<Rightarrow> bool" where
  "knownConstraints name =
     (name \<in> set [''min'', ''max'', ''minlen'', ''maxlen'', ''pattern'', ''options'',
                   ''format'', ''encoding''])"

text \<open>The body of the loop of \<open>ParseAnnotation\<close> over \<open>parts[1:]\<close>.\<close>

definition applyModifier :: "Annotation \<Rightarrow> string \<Rightarrow> Annotation" where
  "applyModifier ann part0 =
     (let part = TrimSpace part0 in
      if part = [] then ann
      else if part = ''optional'' then ann\<lparr>IsOptional := True\<rparr>
      else if part = ''secret'' then ann\<lparr>IsSecret := True\<rparr>
      else (case Index part '':'' of
        None \<Rightarrow> ann
      | Some colonIdx \<Rightarrow>
         (let constraintName = TrimSpace (take colonIdx part);
              constraintValue = TrimSpace (drop (colonIdx + 1) part) in
          if \<not> knownConstraints constraintName then ann
          else ann\<lparr>Constraints := Constraints ann @
                 [\<lparr>CName = constraintName, CValue = constraintValue\<rparr>]\<rparr>)))"

text \<open>
  The annotation as it stands when the loop ends, before the check of FR-042: the
  prompt text, the type of the first part, and what the modifiers added.
\<close>

definition parsedModifiers :: "string \<Rightarrow> string list \<Rightarrow> Annotation" where
  "parsedModifiers promptText parts =
     foldl applyModifier
       \<lparr>PromptText = promptText, Type = ParseVariableType (TrimSpace (hd parts)),
        Constraints = [], IsOptional = False, IsSecret = False\<rparr>
       (tl parts)"

text \<open>FR-042: an enum with empty options becomes a string.\<close>

definition enumWithoutOptions :: "Annotation \<Rightarrow> Annotation" where
  "enumWithoutOptions ann =
     (if Type ann = TypeEnum
      then (if GetConstraint ann ''options'' = [] then ann\<lparr>Type := TypeString\<rparr> else ann)
      else ann)"

definition ParseAnnotation :: "string \<Rightarrow> AnnotationError + Annotation" where
  "ParseAnnotation s0 =
     (let s = TrimSpace s0 in
      if \<not> HasPrefix s ''#prompt:'' then Inl MissingPrefix
      else
        (let content = TrimPrefix s ''#prompt:'' in
         case Index content ''|'' of
           None \<Rightarrow> Inl MissingSeparator
         | Some pipeIdx \<Rightarrow>
            (let rest = drop (pipeIdx + 1) content;
                 parts = Split rest CHR '';'' in
             if length parts = 0 \<or> hd parts = [] then Inl MissingType
             else Inr (enumWithoutOptions
                        (parsedModifiers (TrimSpace (take pipeIdx content)) parts)))))"

section \<open>The document assembler\<close>

text \<open>
  What \<open>parseLines\<close> carries through its loop: the file under construction, the config
  lines seen so far and the position of each name in \<open>Variables\<close>.
\<close>

record ParseState =
  envFile :: EnvFile
  configLines :: "string list"
  varPositions :: "string \<rightharpoonup> nat"

text \<open>
  The one way \<open>parseLines\<close> could fail: the assignment \<open>envFile.Variables[existingIdx]\<close>
  panics when the index is out of range. The error it returns is \<open>nil\<close> on its only
  \<open>return\<close>.
\<close>

datatype ParseError = IndexOutOfRange

definition initialState :: "string \<Rightarrow> ParseState" where
  "initialState path =
     \<lparr>envFile = \<lparr>Path = path, Variables = [], Config = None, Comments = []\<rparr>,
      configLines = [], varPositions = Map.empty\<rparr>"

text \<open>The variable a line gives, if it gives one (lines 180 to 207).\<close>

definition lineVariable :: "nat \<Rightarrow> string \<Rightarrow> Variable option" where
  "lineVariable lineNumber line =
     (case TokenizeLine line of
        (name, value, annotationStr, err) \<Rightarrow>
          if err \<noteq> None then None
          else if name = [] then None
          else
            Some \<lparr>Name = name, Value = TrimSpace value,
                  Annotation =
                    (if annotationStr \<noteq> []
                     then (case ParseAnnotation annotationStr of
                             Inl e \<Rightarrow> None | Inr ann \<Rightarrow> Some ann)
                     else None),
                  LineNumber = lineNumber,
                  IsSet = (value \<noteq> [] \<or> Contains line ''='')\<rparr>)"

text \<open>Lines 209 to 216: a name seen before is replaced where it stands.\<close>

definition storeVariable :: "Variable \<Rightarrow> ParseState \<Rightarrow> ParseError + ParseState" where
  "storeVariable variable st =
     (case varPositions st (Name variable) of
        Some existingIdx \<Rightarrow>
          if existingIdx < length (Variables (envFile st))
          then Inr (st\<lparr>envFile := (envFile st)
                        \<lparr>Variables := (Variables (envFile st))[existingIdx := variable]\<rparr>\<rparr>)
          else Inl IndexOutOfRange
      | None \<Rightarrow>
          Inr (st\<lparr>varPositions := (varPositions st)
                       (Name variable \<mapsto> length (Variables (envFile st))),
                   envFile := (envFile st)
                       \<lparr>Variables := Variables (envFile st) @ [variable]\<rparr>\<rparr>))"

text \<open>The body of the loop, for the line at index \<open>lineNum\<close>.\<close>

definition parseLine :: "nat \<Rightarrow> string \<Rightarrow> ParseState \<Rightarrow> ParseError + ParseState" where
  "parseLine lineNum line st =
     (let lineNumber = lineNum + 1 in
      if IsConfigLine line then Inr (st\<lparr>configLines := configLines st @ [line]\<rparr>)
      else if IsComment line \<and> \<not> IsAnnotationLine line then
        (let text = ExtractCommentText line in
         if text \<noteq> []
         then Inr (st\<lparr>envFile := (envFile st)
                 \<lparr>Comments := Comments (envFile st) @
                    [\<lparr>Text = text, CommentLine = lineNumber\<rparr>]\<rparr>\<rparr>)
         else Inr st)
      else if IsEmptyLine line then Inr st
      else (case lineVariable lineNumber line of
              None \<Rightarrow> Inr st
            | Some variable \<Rightarrow> storeVariable variable st))"

fun parseLoop :: "nat \<Rightarrow> string list \<Rightarrow> ParseState \<Rightarrow> ParseError + ParseState" where
  "parseLoop lineNum [] st = Inr st"
| "parseLoop lineNum (line # lines) st =
     (case parseLine lineNum line st of
        Inl e \<Rightarrow> Inl e
      | Inr st' \<Rightarrow> parseLoop (Suc lineNum) lines st')"

definition parseLines :: "string list \<Rightarrow> string \<Rightarrow> ParseError + EnvFile" where
  "parseLines lines path =
     (case parseLoop 0 lines (initialState path) of
        Inl e \<Rightarrow> Inl e
      | Inr st \<Rightarrow>
          Inr (if length (configLines st) > 0
               then (envFile st)\<lparr>Config := Some (ParseConfig (configLines st))\<rparr>
               else envFile st))"

text \<open>Writing a document back.\<close>

definition FormatAnnotation :: "Annotation \<Rightarrow> string" where
  "FormatAnnotation a =
     (let parts = [String (Type a)]
                  @ map (\<lambda>c. CName c @ '':'' @ CValue c) (Constraints a)
                  @ (if IsOptional a then [''optional''] else [])
                  @ (if IsSecret a then [''secret''] else [])
      in ''#prompt:'' @ PromptText a @ ''|'' @ Join parts '';'')"

definition FormatVariable :: "Variable \<Rightarrow> bool \<Rightarrow> string" where
  "FormatVariable v includeAnnotation =
     (let line = Name v @ ''='' @ Value v in
      case Annotation v of
        Some a \<Rightarrow> if includeAnnotation then line @ '' '' @ FormatAnnotation a else line
      | None \<Rightarrow> line)"

section \<open>The validator\<close>

text \<open>
  \<open>strconv.ParseInt(s, 10, 64)\<close>: an optional sign, then one or more decimal digits and
  nothing else; a value outside the 64-bit signed range is an error too. \<open>None\<close> is a
  non-nil error.
\<close>

fun parseDigits :: "nat \<Rightarrow> string \<Rightarrow> nat option" where
  "parseDigits acc [] = Some acc"
| "parseDigits acc (c # s) =
     (if isDigit c then parseDigits (acc * 10 + (byte c - 48)) s else None)"

definition ParseInt :: "string \<Rightarrow> int option" where
  "ParseInt s0 =
     (if s0 = [] then None
      else
        (let neg = (hd s0 = CHR ''-'');
             s = (if hd s0 = CHR ''+'' \<or> hd s0 = CHR ''-'' then tl s0 else s0) in
         if s = [] then None
         else (case parseDigits 0 s of
                 None \<Rightarrow> None
               | Some un \<Rightarrow>
                   if \<not> neg \<and> un \<ge> 2 ^ 63 then None
                   else if neg \<and> un > 2 ^ 63 then None
                   else Some (if neg then - int un else int un))))"

text \<open>The verb \<open>%d\<close> of package \<open>fmt\<close>.\<close>

fun showNat :: "nat \<Rightarrow> string" where
  "showNat n =
     (if n < 10 then [''0123456789'' ! n]
      else showNat (n div 10) @ [''0123456789'' ! (n mod 10)])"

declare showNat.simps [simp del]

definition showInt :: "int \<Rightarrow> string" where
  "showInt i = (if i < 0 then ''-'' @ showNat (nat (- i)) else showNat (nat i))"

text \<open>
  The verb \<open>%q\<close> writes a string as \<open>strconv.Quote\<close> does. It reads the string rune by
  rune. \<open>utf8.DecodeRuneInString\<close> gives the rune at the start of a string and the
  number of bytes it takes; a byte sequence that is not valid UTF-8 gives \<open>RuneError\<close>
  and the width 1.
\<close>

definition RuneError :: int where
  "RuneError = 0xFFFD"

definition DecodeRuneInString :: "string \<Rightarrow> int \<times> nat" where
  "DecodeRuneInString s =
     (if s = [] then (RuneError, 0)
      else
        (let s0 = int (byte (s ! 0)) in
         if s0 < 0x80 then (s0, 1)
         else if s0 < 0xC2 \<or> 0xF4 < s0 then (RuneError, 1)
         else
           (let sz = (if s0 < 0xE0 then 2 else if s0 < 0xF0 then 3 else 4 :: nat);
                lo = (if s0 = 0xE0 then 0xA0 else if s0 = 0xF0 then 0x90 else 0x80);
                hi = (if s0 = 0xED then 0x9F else if s0 = 0xF4 then 0x8F else 0xBF) in
            if length s < sz then (RuneError, 1)
            else
              (let s1 = int (byte (s ! 1)) in
               if s1 < lo \<or> hi < s1 then (RuneError, 1)
               else if sz \<le> 2 then ((s0 mod 32) * 64 + s1 mod 64, 2)
               else
                 (let s2 = int (byte (s ! 2)) in
                  if s2 < 0x80 \<or> 0xBF < s2 then (RuneError, 1)
                  else if sz \<le> 3
                    then ((s0 mod 16) * 4096 + (s1 mod 64) * 64 + s2 mod 64, 3)
                  else
                    (let s3 = int (byte (s ! 3)) in
                     if s3 < 0x80 \<or> 0xBF < s3 then (RuneError, 1)
                     else ((s0 mod 8) * 262144 + (s1 mod 64) * 4096 + (s2 mod 64) * 64
                           + s3 mod 64, 4)))))))"

text \<open>
  \<open>utf8.AppendRune\<close>: the UTF-8 encoding of a rune, that of \<open>RuneError\<close> for a surrogate
  and for a value outside U+0000 to U+10FFFF.
\<close>

definition AppendRune :: "int \<Rightarrow> string" where
  "AppendRune r0 =
     (let r = (if r0 < 0 \<or> 0x10FFFF < r0 \<or> (0xD800 \<le> r0 \<and> r0 \<le> 0xDFFF)
               then RuneError else r0) in
      if r < 0x80 then [char_of r]
      else if r < 0x800 then [char_of (0xC0 + r div 64), char_of (0x80 + r mod 64)]
      else if r < 0x10000
        then [char_of (0xE0 + r div 4096), char_of (0x80 + (r div 64) mod 64),
              char_of (0x80 + r mod 64)]
      else [char_of (0xF0 + r div 262144), char_of (0x80 + (r div 4096) mod 64),
            char_of (0x80 + (r div 64) mod 64), char_of (0x80 + r mod 64)])"

text \<open>
  \<open>strconv.IsPrint\<close> decides the runes up to U+00FF itself: the ASCII from the space to
  \<open>~\<close>, and U+00A1 to U+00FF without the soft hyphen U+00AD. For the other runes it
  searches the tables \<open>isPrint16\<close>, \<open>isNotPrint16\<close>, \<open>isPrint32\<close> and \<open>isNotPrint32\<close> of
  package \<open>strconv\<close>, which are not part of the repository: \<open>printTables\<close> stands for
  what they say.
\<close>

definition IsPrint :: "(int \<Rightarrow> bool) \<Rightarrow> int \<Rightarrow> bool" where
  "IsPrint printTables r =
     (if r \<le> 0xFF
      then (if 0x20 \<le> r \<and> r \<le> 0x7E then True
            else if 0xA1 \<le> r \<and> r \<le> 0xFF then r \<noteq> 0xAD
            else False)
      else printTables r)"

text \<open>The hexadecimal digit of the four low bits, \<open>lowerhex[x & 0xF]\<close>.\<close>

definition hexDigit :: "int \<Rightarrow> char" where
  "hexDigit x = ''0123456789abcdef'' ! nat (x mod 16)"

text \<open>
  \<open>appendEscapedRune\<close> for the double quote as the quote character: the quote and the
  backslash get a backslash, a printable rune is written as it is, and any other rune is
  escaped.
\<close>

definition appendEscapedRune :: "(int \<Rightarrow> bool) \<Rightarrow> int \<Rightarrow> string" where
  "appendEscapedRune printTables r =
     (if r = 0x22 then [CHR 0x5C, CHR 0x22]
      else if r = 0x5C then [CHR 0x5C, CHR 0x5C]
      else if IsPrint printTables r then AppendRune r
      else if r = 0x07 then [CHR 0x5C, CHR ''a'']
      else if r = 0x08 then [CHR 0x5C, CHR ''b'']
      else if r = 0x0C then [CHR 0x5C, CHR ''f'']
      else if r = 0x0A then [CHR 0x5C, CHR ''n'']
      else if r = 0x0D then [CHR 0x5C, CHR ''r'']
      else if r = 0x09 then [CHR 0x5C, CHR ''t'']
      else if r = 0x0B then [CHR 0x5C, CHR ''v'']
      else if r < 0x20 \<or> r = 0x7F
        then [CHR 0x5C, CHR ''x'', hexDigit (r div 16), hexDigit r]
      else if r < 0 \<or> 0x10FFFF < r \<or> (0xD800 \<le> r \<and> r \<le> 0xDFFF)
        then [CHR 0x5C, CHR ''u'', CHR ''f'', CHR ''f'', CHR ''f'', CHR ''d'']
      else if r < 0x10000
        then [CHR 0x5C, CHR ''u'', hexDigit (r div 4096), hexDigit (r div 256),
              hexDigit (r div 16), hexDigit r]
      else [CHR 0x5C, CHR ''U'', hexDigit (r div 268435456), hexDigit (r div 16777216),
            hexDigit (r div 1048576), hexDigit (r div 65536), hexDigit (r div 4096),
            hexDigit (r div 256), hexDigit (r div 16), hexDigit r])"

text \<open>
  The loop of \<open>appendQuotedWith\<close>. Its second argument counts the bytes still to skip
  of the rune read last. A byte that starts no valid rune is written as \<open>\x\<close> and its
  two hexadecimal digits.
\<close>

fun quoteRunes :: "(int \<Rightarrow> bool) \<Rightarrow> nat \<Rightarrow> string \<Rightarrow> string" where
  "quoteRunes printTables skip [] = []"
| "quoteRunes printTables (Suc skip) (c # s) = quoteRunes printTables skip s"
| "quoteRunes printTables 0 (c # s) =
     (case (if 0x80 \<le> byte c then DecodeRuneInString (c # s) else (int (byte c), 1)) of
        (r, width) \<Rightarrow>
          (if width = 1 \<and> r = RuneError
           then [CHR 0x5C, CHR ''x'', hexDigit (int (byte c) div 16), hexDigit (int (byte c))]
           else appendEscapedRune printTables r)
          @ quoteRunes printTables (width - 1) s)"

definition Quote :: "(int \<Rightarrow> bool) \<Rightarrow> string \<Rightarrow> string" where
  "Quote printTables s = [CHR 0x22] @ quoteRunes printTables 0 s @ [CHR 0x22]"

text \<open>
  The validators return the message of the error, \<open>None\<close> for \<open>nil\<close>. Those that
  write a value with \<open>%q\<close> take the tables of \<open>strconv.IsPrint\<close>.
\<close>

definition validateInt :: "(int \<Rightarrow> bool) \<Rightarrow> string \<Rightarrow> Annotation \<Rightarrow> string option" where
  "validateInt printTables value ann =
     (if value = [] then Some ''value is required''
      else (case ParseInt value of
        None \<Rightarrow> Some (''expected integer, got '' @ Quote printTables value)
      | Some n \<Rightarrow>
         (let minStr = GetConstraint ann ''min'';
              belowMin = (if minStr \<noteq> [] then
                            (case ParseInt minStr of
                               Some mn \<Rightarrow> if n < mn then Some mn else None
                             | None \<Rightarrow> None)
                          else None) in
          case belowMin of
            Some mn \<Rightarrow>
              Some (''value '' @ showInt n @ '' is below minimum '' @ showInt mn)
          | None \<Rightarrow>
             (let maxStr = GetConstraint ann ''max'';
                  aboveMax = (if maxStr \<noteq> [] then
                                (case ParseInt maxStr of
                                   Some mx \<Rightarrow> if n > mx then Some mx else None
                                 | None \<Rightarrow> None)
                              else None) in
              case aboveMax of
                Some mx \<Rightarrow>
                  Some (''value '' @ showInt n @ '' exceeds maximum '' @ showInt mx)
              | None \<Rightarrow> None))))"

definition validateEnum :: "(int \<Rightarrow> bool) \<Rightarrow> string \<Rightarrow> Annotation \<Rightarrow> string option" where
  "validateEnum printTables value ann =
     (if value = [] then Some ''value is required for enum''
      else
        (let optionsStr = GetConstraint ann ''options'' in
         if optionsStr = [] then Some ''enum has no options defined''
         else if list_ex (\<lambda>opt. TrimSpace opt = value) (Split optionsStr CHR '','')
           then None
         else Some (''value '' @ Quote printTables value @ '' not in allowed options: ''
                    @ optionsStr)))"

text \<open>
  The validators of the other four types rest on \<open>strconv.ParseFloat\<close>, \<open>regexp\<close>,
  \<open>strings.ToLower\<close>, \<open>encoding/json\<close> and \<open>yaml.v3\<close>, which are not part of the
  repository; \<open>ValidateValue\<close> takes them as they are, together with the tables of
  \<open>strconv.IsPrint\<close>.
\<close>

record Validators =
  isPrintTables :: "int \<Rightarrow> bool"
  validateNumeric :: "string \<Rightarrow> Annotation \<Rightarrow> string option"
  validateString :: "string \<Rightarrow> Annotation \<Rightarrow> string option"
  validateBoolean :: "string \<Rightarrow> string option"
  validateObject :: "string \<Rightarrow> Annotation \<Rightarrow> string option"

definition ValidateValue :: "Validators \<Rightarrow> string \<Rightarrow> Annotation option \<Rightarrow> string option" where
  "ValidateValue lib value annp =
     (case annp of
        None \<Rightarrow> None
      | Some ann \<Rightarrow>
          if value = [] \<and> IsOptional ann then None
          else (case Type ann of
                  TypeInt \<Rightarrow> validateInt (isPrintTables lib) value ann
                | TypeNumeric \<Rightarrow> validateNumeric lib value ann
                | TypeString \<Rightarrow> validateString lib value ann
                | TypeEnum \<Rightarrow> validateEnum (isPrintTables lib) value ann
                | TypeBoolean \<Rightarrow> validateBoolean lib value
                | TypeObject \<Rightarrow> validateObject lib value ann))"

datatype ErrorType =
  ErrorMissingRequired | ErrorInvalidType | ErrorConstraintViolation
  | ErrorAnnotationSyntax | ErrorDuplicateVariable

definition getErrorType :: "string \<Rightarrow> ErrorType" where
  "getErrorType msg =
     (if Contains msg ''required'' then ErrorMissingRequired
      else if Contains msg ''not in allowed'' \<or> Contains msg ''does not match''
        then ErrorConstraintViolation
      else ErrorInvalidType)"

text \<open>
  \<open>ValidateVariable\<close>, as the class of the error it reports (the \<open>Type\<close> field of the
  \<open>ValidationError\<close>); \<open>None\<close> when the variable is valid or has no annotation.
\<close>

definition ValidateVariable :: "Validators \<Rightarrow> Variable \<Rightarrow> (string \<times> ErrorType) option" where
  "ValidateVariable lib v =
     (case Annotation v of
        None \<Rightarrow> None
      | Some ann \<Rightarrow>
          (case ValidateValue lib (Value v) (Some ann) of
             None \<Rightarrow> None
           | Some msg \<Rightarrow> Some (msg, getErrorType msg)))"

section \<open>The properties, in the words of the specification\<close>

text \<open>The trimmed text before the first \<open>=\<close> of a trimmed line.\<close>

definition nameBeforeEq :: "string \<Rightarrow> string" where
  "nameBeforeEq t = TrimSpace (takeWhile (\<lambda>c. c \<noteq> CHR ''='') t)"

text \<open>
  The text after the first \<open>|\<close> of the content of an annotation, and the first of its
  segments between \<open>;\<close>.
\<close>

definition afterFirstPipe :: "string \<Rightarrow> string" where
  "afterFirstPipe content = tl (dropWhile (\<lambda>c. c \<noteq> CHR ''|'') content)"

definition firstSegment :: "string \<Rightarrow> string" where
  "firstSegment r = takeWhile (\<lambda>c. c \<noteq> CHR '';'') r"

text \<open>
  The values written to a config key, in the order of the lines; what the value of
  \<open>environments\<close> and of \<open>strict\<close> stand for.
\<close>

definition writes :: "string \<Rightarrow> string list \<Rightarrow> string list" where
  "writes key lines = map snd (filter (\<lambda>kv. fst kv = key) (map ParseConfigLine lines))"

definition specEnvironments :: "string \<Rightarrow> string list" where
  "specEnvironments value = filter (\<lambda>e. e \<noteq> []) (map TrimSpace (Split value CHR '',''))"

definition specStrict :: "string \<Rightarrow> bool" where
  "specStrict value = (value \<in> {''true'', ''1'', ''yes''})"

text \<open>The annotation of the boundary example: an integer with \<open>min:1;max:10\<close>.\<close>

definition bounds1to10 :: Annotation where
  "bounds1to10 =
     \<lparr>PromptText = ''N?'', Type = TypeInt,
      Constraints = [\<lparr>CName = ''min'', CValue = ''1''\<rparr>, \<lparr>CName = ''max'', CValue = ''10''\<rparr>],
      IsOptional = False, IsSecret = False\<rparr>"

text \<open>
  What holds of the state of \<open>parseLines\<close> between two lines: the names in \<open>Variables\<close>
  are distinct and \<open>varPositions\<close> maps each of them to its index, and no other name.
\<close>

definition positionsOK :: "ParseState \<Rightarrow> bool" where
  "positionsOK st =
     (distinct (map Name (Variables (envFile st))) \<and>
      (\<forall>name i. (varPositions st name = Some i) =
                 (i < length (Variables (envFile st)) \<and> Name (Variables (envFile st) ! i) = name)))"

text \<open>
  How a line changes \<open>Variables\<close>: not at all when it gives no variable; a variable
  whose name is there replaces the entry of that name where it stands; a variable with a
  new name is appended.
\<close>

definition stored :: "Variable list \<Rightarrow> Variable option \<Rightarrow> Variable list \<Rightarrow> bool" where
  "stored vs new vs' =
     (case new of
        None \<Rightarrow> vs' = vs
      | Some v \<Rightarrow>
          if Name v \<in> set (map Name vs)
          then (\<exists>i < length vs. Name (vs ! i) = Name v \<and> vs' = vs[i := v])
          else vs' = vs @ [v])"

text \<open>
  The string starts with none of the given byte sequences.
\<close>

definition noPrefix :: "string list \<Rightarrow> string \<Rightarrow> bool" where
  "noPrefix ws s = (\<forall>w\<in>set ws. \<not> HasPrefix s w)"

text \<open>
  \<open>TrimSpace\<close> has nothing to remove on the left, or on the right, or on
  either side.
\<close>

definition leftOK :: "string \<Rightarrow> bool" where
  "leftOK s = noPrefix spaceRunes s"

definition rightOK :: "string \<Rightarrow> bool" where
  "rightOK s = noPrefix (map rev spaceRunes) (rev s)"

definition trimmed :: "string \<Rightarrow> bool" where
  "trimmed s = (leftOK s \<and> rightOK s)"

text \<open>
  An ASCII byte that is neither a control character nor the space, and any ASCII byte.
\<close>

definition plainByte :: "char \<Rightarrow> bool" where
  "plainByte c = (33 \<le> byte c \<and> byte c < 128)"

definition asciiByte :: "char \<Rightarrow> bool" where
  "asciiByte c = (byte c < 128)"

text \<open>
  What the annotation parser guarantees of a constraint it stores: a known name, a
  trimmed value without \<open>;\<close>.
\<close>

definition wfConstraint :: "Constraint \<Rightarrow> bool" where
  "wfConstraint c =
     (knownConstraints (CName c) \<and> trimmed (CValue c) \<and> CHR '';'' \<notin> set (CValue c))"

text \<open>
  What \<open>ParseAnnotation\<close> guarantees of the annotation it returns.
\<close>

definition wfAnnotation :: "Annotation \<Rightarrow> bool" where
  "wfAnnotation a =
     (trimmed (PromptText a) \<and> CHR ''|'' \<notin> set (PromptText a) \<and>
      (\<forall>c\<in>set (Constraints a). wfConstraint c) \<and>
      (Type a = TypeEnum \<longrightarrow> GetConstraint a ''options'' \<noteq> []))"

text \<open>
  What a line guarantees of the variable it gives.
\<close>

definition wfVariable :: "Variable \<Rightarrow> bool" where
  "wfVariable v =
     (variableNamePattern (Name v) \<and> trimmed (Value v) \<and>
      \<not> Contains (Value v) '' #prompt:'' \<and>
      (\<forall>a. Annotation v = Some a \<longrightarrow> wfAnnotation a))"

text \<open>
  What \<open>ParseConfig\<close> guarantees of the environments.
\<close>

definition wfConfig :: "KrakenvConfig \<Rightarrow> bool" where
  "wfConfig c = (\<forall>e\<in>set (Environments c). e \<noteq> [] \<and> trimmed e \<and> CHR '','' \<notin> set e)"

text \<open>
  The part \<open>FormatAnnotation\<close> writes for a constraint, and all its parts
  between \<open>;\<close>.
\<close>

definition formatConstraint :: "Constraint \<Rightarrow> string" where
  "formatConstraint c = CName c @ '':'' @ CValue c"

text \<open>
  Writing a document back: the config lines, then a line for each variable, annotations
  kept.
\<close>

definition configBlock :: "EnvFile \<Rightarrow> string list" where
  "configBlock d = (case Config d of None \<Rightarrow> [] | Some c \<Rightarrow> FormatConfig c)"

definition serialize :: "EnvFile \<Rightarrow> string list" where
  "serialize d = configBlock d @ map (\<lambda>v. FormatVariable v True) (Variables d)"

text \<open>
  Two documents are equivalent when they have the same variables, with the same names,
  values and annotations in the same order, and the same config.
\<close>

definition core :: "Variable \<Rightarrow> string \<times> string \<times> Annotation option" where
  "core v = (Name v, Value v, Annotation v)"

definition equivalent :: "EnvFile \<Rightarrow> EnvFile \<Rightarrow> bool" where
  "equivalent d d' =
     (map core (Variables d') = map core (Variables d) \<and> Config d' = Config d)"

text \<open>
  The line that sets \<open>A\<close> to \<open>x\<close> in single quotes inside double quotes, whose
  parsed value keeps the single quotes; the end-to-end scenario.
\<close>

definition quotedExample :: "string list" where
  "quotedExample = [[CHR ''A'', CHR ''='', CHR 0x22, CHR 0x27, CHR ''x'', CHR 0x27, CHR 0x22]]"

definition scenario :: "string list" where
  "scenario =
     [''#krakenv:environments=local,prod'',
      ''DB_HOST=localhost #prompt:Host?|string'',
      ''DB_PORT= #prompt:Port?|int;min:1;max:65535'']"

definition annotationParts :: "Annotation \<Rightarrow> string list" where
  "annotationParts a =
     [String (Type a)] @ map formatConstraint (Constraints a)
     @ (if IsOptional a then [''optional''] else [])
     @ (if IsSecret a then [''secret''] else [])"

text \<open>
  The annotation text of the line \<open>FormatVariable\<close> writes, empty when there
  is no annotation.
\<close>

definition annotationSuffix :: "Variable \<Rightarrow> string" where
  "annotationSuffix v = (case Annotation v of None \<Rightarrow> [] | Some a \<Rightarrow> FormatAnnotation a)"

text \<open>
  A stand-in, in the examples, for the validators of the other four types and for the
  tables: an annotation of type \<open>int\<close> or \<open>enum\<close> does not reach the former, and a
  value of ASCII bytes does not reach the latter.
\<close>

definition noOtherChecks :: Validators where
  "noOtherChecks =
     \<lparr>isPrintTables = (\<lambda>r. False),
      validateNumeric = (\<lambda>v a. None), validateString = (\<lambda>v a. None),
      validateBoolean = (\<lambda>v. None), validateObject = (\<lambda>v a. None)\<rparr>"

section \<open>Facts about the string functions\<close>

lemma HasPrefix_single: "HasPrefix (x # s) [c] = (x = c)"
  by (simp add: HasPrefix_def)

lemma Index_char_None: "(Index s [c] = None) = (c \<notin> set s)"
  by (induction s) (auto simp: HasPrefix_single)

lemma Index_char_Some:
  "Index s [c] = Some i \<Longrightarrow>
     take i s = takeWhile (\<lambda>x. x \<noteq> c) s \<and> drop i s = dropWhile (\<lambda>x. x \<noteq> c) s \<and>
     i < length s \<and> s ! i = c"
proof (induction s arbitrary: i)
  case Nil
  then show ?case by simp
next
  case (Cons x s)
  show ?case
  proof (cases "x = c")
    case True
    with Cons.prems show ?thesis by (simp add: HasPrefix_single)
  next
    case False
    with Cons.prems obtain j where j: "Index s [c] = Some j" "i = Suc j"
      by (auto simp: HasPrefix_single)
    from Cons.IH[OF j(1)] j(2) False show ?thesis by simp
  qed
qed

lemma Index_char_drop_Suc:
  "Index s [c] = Some i \<Longrightarrow> drop (i + 1) s = tl (dropWhile (\<lambda>x. x \<noteq> c) s)"
  using Index_char_Some[of s c i] by (simp add: drop_Suc drop_tl)

lemma Split_nonempty: "Split s c \<noteq> []"
  by (induction s) (auto split: list.splits)

lemma hd_Split: "hd (Split s c) = takeWhile (\<lambda>x. x \<noteq> c) s"
  by (induction s) (auto split: list.splits simp: Split_nonempty)

section \<open>The tokenizer reports an error for an invalid name only\<close>

text \<open>
  C5. \<open>TokenizeLine\<close> returns an error exactly when the trimmed line is not empty, does
  not start with \<open>#\<close>, contains an \<open>=\<close>, has a non-empty trimmed name before the first
  \<open>=\<close>, and that name does not match \<open>^[A-Z][A-Z0-9_]*$\<close>; the outputs are empty then.
  An empty line, a comment line, a line without \<open>=\<close> and a line with an empty name give
  empty outputs and no error.
\<close>

theorem TokenizeLine_error_iff:
  "((snd (snd (snd (TokenizeLine line))) \<noteq> None) =
      (TrimSpace line \<noteq> [] \<and> \<not> HasPrefix (TrimSpace line) ''#'' \<and>
       Contains (TrimSpace line) ''='' \<and> nameBeforeEq (TrimSpace line) \<noteq> [] \<and>
       \<not> variableNamePattern (nameBeforeEq (TrimSpace line))))
   \<and> (snd (snd (snd (TokenizeLine line))) \<noteq> None \<longrightarrow>
        TokenizeLine line = ([], [], [], Some ErrInvalidVariableName))
   \<and> (TrimSpace line = [] \<or> HasPrefix (TrimSpace line) ''#'' \<or>
        \<not> Contains (TrimSpace line) ''='' \<or> nameBeforeEq (TrimSpace line) = [] \<longrightarrow>
        TokenizeLine line = ([], [], [], None))"
proof (cases "Index (TrimSpace line) ''=''")
  case None
  then show ?thesis
    by (simp add: TokenizeLine_def Contains_def Let_def)
next
  case (Some i)
  then have tk: "take i (TrimSpace line) = takeWhile (\<lambda>c. c \<noteq> CHR ''='') (TrimSpace line)"
    using Index_char_Some by blast
  show ?thesis using Some tk
    by (simp add: TokenizeLine_def Contains_def Let_def nameBeforeEq_def split: option.splits)
qed

theorem TokenizeLine_error_iff_witness:
  "TokenizeLine ''db=1'' = ([], [], [], Some ErrInvalidVariableName) \<and>
   Contains (TrimSpace ''db=1'') ''='' \<and>
   \<not> variableNamePattern (nameBeforeEq (TrimSpace ''db=1'')) \<and>
   TokenizeLine '' # x=1'' = ([], [], [], None)"
proof -
  have h: "snd (snd (snd (TokenizeLine ''db=1''))) \<noteq> None" by code_simp
  have c: "HasPrefix (TrimSpace '' # x=1'') ''#''" by code_simp
  from TokenizeLine_error_iff [of "''db=1''"] h TokenizeLine_error_iff [of "'' # x=1''"] c
  show ?thesis by blast
qed

section \<open>The annotation parser: the type and the enum rule\<close>

lemma applyModifier_Type: "Type (applyModifier a p) = Type a"
  by (simp add: applyModifier_def Let_def split: option.splits)

lemma foldl_applyModifier_Type: "Type (foldl applyModifier a ps) = Type a"
  by (induction ps arbitrary: a) (simp_all add: applyModifier_Type)

lemma parsedModifiers_Type:
  "Type (parsedModifiers t parts) = ParseVariableType (TrimSpace (hd parts))"
  by (simp add: parsedModifiers_def foldl_applyModifier_Type)

text \<open>\<open>ParseAnnotation\<close>, with its indices read as the text before and after the first \<open>|\<close>.\<close>

lemma ParseAnnotation_cases:
  "ParseAnnotation s =
     (if \<not> HasPrefix (TrimSpace s) ''#prompt:'' then Inl MissingPrefix
      else if CHR ''|'' \<notin> set (TrimPrefix (TrimSpace s) ''#prompt:'') then Inl MissingSeparator
      else if firstSegment (afterFirstPipe (TrimPrefix (TrimSpace s) ''#prompt:'')) = []
        then Inl MissingType
      else Inr (enumWithoutOptions
                 (parsedModifiers
                    (TrimSpace (takeWhile (\<lambda>c. c \<noteq> CHR ''|'')
                                  (TrimPrefix (TrimSpace s) ''#prompt:'')))
                    (Split (afterFirstPipe (TrimPrefix (TrimSpace s) ''#prompt:'')) CHR '';''))))"
proof (cases "Index (TrimPrefix (TrimSpace s) ''#prompt:'') ''|''")
  case None
  then show ?thesis
    using Index_char_None[of "TrimPrefix (TrimSpace s) ''#prompt:''" "CHR ''|''"]
    by (simp add: ParseAnnotation_def Let_def)
next
  case (Some i)
  then have "CHR ''|'' \<in> set (TrimPrefix (TrimSpace s) ''#prompt:'')"
    using Index_char_None[of "TrimPrefix (TrimSpace s) ''#prompt:''" "CHR ''|''"] by simp
  moreover note Index_char_Some[OF Some] Index_char_drop_Suc[OF Some]
  ultimately show ?thesis using Some
    by (simp add: ParseAnnotation_def Let_def Split_nonempty hd_Split
        firstSegment_def afterFirstPipe_def)
qed



text \<open>
  C3. When \<open>ParseAnnotation\<close> accepts a string whose parsed type is \<open>enum\<close> and the first
  \<open>options\<close> constraint is absent or empty, the annotation it returns has type
  \<open>string\<close>; the constraints, the prompt text and the flags are those the modifiers gave.
  In particular \<open>#prompt:X?|enum;options:\<close> parses to type \<open>string\<close>, the empty
  \<open>options\<close> constraint still stored.
\<close>

theorem ParseAnnotation_enum_without_options:
  "(ParseAnnotation s = Inr a \<longrightarrow>
      (let content = TrimPrefix (TrimSpace s) ''#prompt:'';
           b = parsedModifiers (TrimSpace (takeWhile (\<lambda>c. c \<noteq> CHR ''|'') content))
                 (Split (afterFirstPipe content) CHR '';'')
       in Type b = ParseVariableType (TrimSpace (firstSegment (afterFirstPipe content))) \<and>
          (Type b = TypeEnum \<and> GetConstraint b ''options'' = [] \<longrightarrow> Type a = TypeString) \<and>
          (\<not> (Type b = TypeEnum \<and> GetConstraint b ''options'' = []) \<longrightarrow> Type a = Type b) \<and>
          Constraints a = Constraints b \<and> PromptText a = PromptText b \<and>
          IsOptional a = IsOptional b \<and> IsSecret a = IsSecret b))
   \<and> ParseAnnotation ''#prompt:X?|enum;options:'' =
        Inr \<lparr>PromptText = ''X?'', Type = TypeString,
             Constraints = [\<lparr>CName = ''options'', CValue = []\<rparr>],
             IsOptional = False, IsSecret = False\<rparr>"
proof -
  have ex: "ParseAnnotation ''#prompt:X?|enum;options:'' =
        Inr \<lparr>PromptText = ''X?'', Type = TypeString,
             Constraints = [\<lparr>CName = ''options'', CValue = []\<rparr>],
             IsOptional = False, IsSecret = False\<rparr>" by code_simp
  have "ParseAnnotation s = Inr a \<longrightarrow>
      (let content = TrimPrefix (TrimSpace s) ''#prompt:'';
           b = parsedModifiers (TrimSpace (takeWhile (\<lambda>c. c \<noteq> CHR ''|'') content))
                 (Split (afterFirstPipe content) CHR '';'')
       in Type b = ParseVariableType (TrimSpace (firstSegment (afterFirstPipe content))) \<and>
          (Type b = TypeEnum \<and> GetConstraint b ''options'' = [] \<longrightarrow> Type a = TypeString) \<and>
          (\<not> (Type b = TypeEnum \<and> GetConstraint b ''options'' = []) \<longrightarrow> Type a = Type b) \<and>
          Constraints a = Constraints b \<and> PromptText a = PromptText b \<and>
          IsOptional a = IsOptional b \<and> IsSecret a = IsSecret b)"
    by (auto simp: ParseAnnotation_cases Let_def enumWithoutOptions_def parsedModifiers_Type
        hd_Split firstSegment_def split: if_splits)
  with ex show ?thesis by blast
qed

theorem ParseAnnotation_enum_without_options_witness:
  "ParseAnnotation ''#prompt:Env?|enum;min:1;secret'' =
     Inr \<lparr>PromptText = ''Env?'', Type = TypeString,
          Constraints = [\<lparr>CName = ''min'', CValue = ''1''\<rparr>],
          IsOptional = False, IsSecret = True\<rparr> \<and>
   (let content = TrimPrefix (TrimSpace ''#prompt:Env?|enum;min:1;secret'') ''#prompt:'';
        b = parsedModifiers (TrimSpace (takeWhile (\<lambda>c. c \<noteq> CHR ''|'') content))
              (Split (afterFirstPipe content) CHR '';'')
    in Type b = TypeEnum \<and> GetConstraint b ''options'' = [] \<and>
       Constraints b = [\<lparr>CName = ''min'', CValue = ''1''\<rparr>])"
proof -
  have p: "ParseAnnotation ''#prompt:Env?|enum;min:1;secret'' =
     Inr \<lparr>PromptText = ''Env?'', Type = TypeString,
          Constraints = [\<lparr>CName = ''min'', CValue = ''1''\<rparr>],
          IsOptional = False, IsSecret = True\<rparr>" by code_simp
  have q: "(let content = TrimPrefix (TrimSpace ''#prompt:Env?|enum;min:1;secret'') ''#prompt:'';
        b = parsedModifiers (TrimSpace (takeWhile (\<lambda>c. c \<noteq> CHR ''|'') content))
              (Split (afterFirstPipe content) CHR '';'')
    in Type b = TypeEnum \<and> GetConstraint b ''options'' = [])" by code_simp
  from ParseAnnotation_enum_without_options
         [of "''#prompt:Env?|enum;min:1;secret''"
             "\<lparr>PromptText = ''Env?'', Type = TypeString,
               Constraints = [\<lparr>CName = ''min'', CValue = ''1''\<rparr>],
               IsOptional = False, IsSecret = True\<rparr>"] p q
  show ?thesis by (simp add: Let_def)
qed

lemma enumWithoutOptions_enum:
  "Type (enumWithoutOptions b) = TypeEnum \<Longrightarrow>
     GetConstraint (enumWithoutOptions b) ''options'' \<noteq> []"
  by (auto simp: enumWithoutOptions_def GetConstraint_def split: if_splits)

lemma ParseAnnotation_enum_options:
  "ParseAnnotation s = Inr a \<Longrightarrow> Type a = TypeEnum \<Longrightarrow> GetConstraint a ''options'' \<noteq> []"
  by (auto simp: ParseAnnotation_cases enumWithoutOptions_enum split: if_splits)

text \<open>
  C8. An annotation that \<open>ParseAnnotation\<close> returns with type \<open>enum\<close> has a non-empty
  \<open>options\<close> constraint, so \<open>validateEnum\<close>, also when reached through
  \<open>ValidateValue\<close>, never reports "enum has no options defined" for it.
\<close>

theorem parsed_enum_has_options:
  "ParseAnnotation s = Inr a \<Longrightarrow> Type a = TypeEnum \<Longrightarrow>
     GetConstraint a ''options'' \<noteq> [] \<and>
     validateEnum pt v a \<noteq> Some ''enum has no options defined'' \<and>
     ValidateValue lib v (Some a) \<noteq> Some ''enum has no options defined''"
proof -
  assume p: "ParseAnnotation s = Inr a" and t: "Type a = TypeEnum"
  from p t have o: "GetConstraint a ''options'' \<noteq> []" by (rule ParseAnnotation_enum_options)
  then have e: "validateEnum q v a \<noteq> Some ''enum has no options defined''" for q
    by (simp add: validateEnum_def Let_def)
  from t e have "ValidateValue lib v (Some a) \<noteq> Some ''enum has no options defined''"
    by (simp add: ValidateValue_def)
  with o e show ?thesis by blast
qed

theorem parsed_enum_has_options_witness:
  "ParseAnnotation ''#prompt:Env?|enum;options:dev,prod'' =
     Inr \<lparr>PromptText = ''Env?'', Type = TypeEnum,
          Constraints = [\<lparr>CName = ''options'', CValue = ''dev,prod''\<rparr>],
          IsOptional = False, IsSecret = False\<rparr> \<and>
   GetConstraint \<lparr>PromptText = ''Env?'', Type = TypeEnum,
          Constraints = [\<lparr>CName = ''options'', CValue = ''dev,prod''\<rparr>],
          IsOptional = False, IsSecret = False\<rparr> ''options'' \<noteq> [] \<and>
   validateEnum (isPrintTables noOtherChecks) ''qa'' \<lparr>PromptText = ''Env?'', Type = TypeEnum,
          Constraints = [\<lparr>CName = ''options'', CValue = ''dev,prod''\<rparr>],
          IsOptional = False, IsSecret = False\<rparr> \<noteq> Some ''enum has no options defined''"
proof -
  have p: "ParseAnnotation ''#prompt:Env?|enum;options:dev,prod'' =
     Inr \<lparr>PromptText = ''Env?'', Type = TypeEnum,
          Constraints = [\<lparr>CName = ''options'', CValue = ''dev,prod''\<rparr>],
          IsOptional = False, IsSecret = False\<rparr>" by code_simp
  have t: "Type \<lparr>PromptText = ''Env?'', Type = TypeEnum,
          Constraints = [\<lparr>CName = ''options'', CValue = ''dev,prod''\<rparr>],
          IsOptional = False, IsSecret = False\<rparr> = TypeEnum" by simp
  from parsed_enum_has_options
         [OF p t, where pt = "isPrintTables noOtherChecks" and v = "''qa''"] p
  show ?thesis by blast
qed

section \<open>The config block\<close>

lemma appendEnvs_filter:
  "appendEnvs acc es = acc @ filter (\<lambda>e. e \<noteq> []) (map TrimSpace es)"
  by (induction es arbitrary: acc) (simp_all add: Let_def)

lemma ParseConfig_snoc: "ParseConfig (ls @ [l]) = applyConfigLine (ParseConfig ls) l"
  by (simp add: ParseConfig_def)

lemma writes_snoc:
  "writes key (ls @ [l]) =
     writes key ls @ (if fst (ParseConfigLine l) = key then [snd (ParseConfigLine l)] else [])"
  by (simp add: writes_def)

lemma ParseConfig_Environments:
  "Environments (ParseConfig lines) =
     (if writes ''environments'' lines = [] then [''local'']
      else specEnvironments (last (writes ''environments'' lines)))"
proof (induction lines rule: rev_induct)
  case Nil
  then show ?case by (simp add: ParseConfig_def writes_def DefaultConfig_def)
next
  case (snoc l ls)
  obtain k v where kv: "ParseConfigLine l = (k, v)" by (cases "ParseConfigLine l")
  show ?case using snoc kv
    by (simp add: ParseConfig_snoc writes_snoc applyConfigLine_def appendEnvs_filter
        specEnvironments_def)
qed

lemma ParseConfig_Strict:
  "Strict (ParseConfig lines) =
     (if writes ''strict'' lines = [] then False
      else specStrict (last (writes ''strict'' lines)))"
proof (induction lines rule: rev_induct)
  case Nil
  then show ?case by (simp add: ParseConfig_def writes_def DefaultConfig_def)
next
  case (snoc l ls)
  obtain k v where kv: "ParseConfigLine l = (k, v)" by (cases "ParseConfigLine l")
  show ?case using snoc kv
    by (simp add: ParseConfig_snoc writes_snoc applyConfigLine_def specStrict_def)
qed

lemma ParseConfig_DistPath:
  "DistPath (ParseConfig lines) =
     (if filter (\<lambda>v. v \<noteq> []) (writes ''distPath'' lines) = [] then ''.env.dist''
      else last (filter (\<lambda>v. v \<noteq> []) (writes ''distPath'' lines)))"
proof (induction lines rule: rev_induct)
  case Nil
  then show ?case by (simp add: ParseConfig_def writes_def DefaultConfig_def)
next
  case (snoc l ls)
  obtain k v where kv: "ParseConfigLine l = (k, v)" by (cases "ParseConfigLine l")
  show ?case using snoc kv
    by (simp add: ParseConfig_snoc writes_snoc applyConfigLine_def)
qed

lemma applyConfigLine_unknown_key:
  "fst (ParseConfigLine l) \<notin> {''environments'', ''strict'', ''distPath''} \<Longrightarrow>
     applyConfigLine c l = c"
  by (cases "ParseConfigLine l") (simp add: applyConfigLine_def)

text \<open>
  C6. \<open>ParseConfig\<close> starts from the defaults. Its \<open>Environments\<close> are the default when
  no line writes \<open>environments\<close>, and otherwise the last value written, split at the
  commas, each element trimmed and the empty ones dropped (an all-empty value gives the
  empty list). \<open>Strict\<close> is false when no line writes \<open>strict\<close> and otherwise says
  whether the last value written is exactly \<open>true\<close>, \<open>1\<close> or \<open>yes\<close>. \<open>DistPath\<close> is the
  last non-empty value written to \<open>distPath\<close>, the default when there is none. A line
  with another key changes nothing.
\<close>

theorem ParseConfig_last_write_wins:
  "ParseConfig [] = \<lparr>Environments = [''local''], Strict = False, DistPath = ''.env.dist''\<rparr>
   \<and> Environments (ParseConfig lines) =
       (if writes ''environments'' lines = [] then [''local'']
        else specEnvironments (last (writes ''environments'' lines)))
   \<and> Strict (ParseConfig lines) =
       (if writes ''strict'' lines = [] then False
        else specStrict (last (writes ''strict'' lines)))
   \<and> DistPath (ParseConfig lines) =
       (if filter (\<lambda>v. v \<noteq> []) (writes ''distPath'' lines) = [] then ''.env.dist''
        else last (filter (\<lambda>v. v \<noteq> []) (writes ''distPath'' lines)))
   \<and> (fst (ParseConfigLine l) \<notin> {''environments'', ''strict'', ''distPath''} \<longrightarrow>
        ParseConfig (lines @ [l]) = ParseConfig lines)
   \<and> Environments (ParseConfig [''#krakenv:environments= , ,'']) = []"
proof -
  have d: "ParseConfig [] =
      \<lparr>Environments = [''local''], Strict = False, DistPath = ''.env.dist''\<rparr>"
    by (simp add: ParseConfig_def DefaultConfig_def)
  have u: "fst (ParseConfigLine l) \<notin> {''environments'', ''strict'', ''distPath''} \<longrightarrow>
        ParseConfig (lines @ [l]) = ParseConfig lines"
    using applyConfigLine_unknown_key [of l "ParseConfig lines"]
    by (simp only: ParseConfig_snoc) blast
  have e: "Environments (ParseConfig [''#krakenv:environments= , ,'']) = []" by code_simp
  from d u e ParseConfig_Environments [of lines] ParseConfig_Strict [of lines]
    ParseConfig_DistPath [of lines]
  show ?thesis by blast
qed

theorem ParseConfig_last_write_wins_witness:
  "Environments (ParseConfig [''#krakenv:environments=a, b,,'', ''#krakenv:strict=yes'',
      ''#krakenv:strict=TRUE'', ''#krakenv:distPath=x'', ''#krakenv:distPath='']) = [''a'', ''b''] \<and>
   Strict (ParseConfig [''#krakenv:environments=a, b,,'', ''#krakenv:strict=yes'',
      ''#krakenv:strict=TRUE'', ''#krakenv:distPath=x'', ''#krakenv:distPath='']) = False \<and>
   DistPath (ParseConfig [''#krakenv:environments=a, b,,'', ''#krakenv:strict=yes'',
      ''#krakenv:strict=TRUE'', ''#krakenv:distPath=x'', ''#krakenv:distPath='']) = ''x'' \<and>
   ParseConfig ([''#krakenv:strict=1''] @ [''#krakenv:color=red'']) =
     ParseConfig [''#krakenv:strict=1'']"
proof -
  let ?L = "[''#krakenv:environments=a, b,,'', ''#krakenv:strict=yes'',
      ''#krakenv:strict=TRUE'', ''#krakenv:distPath=x'', ''#krakenv:distPath='']"
  have w1: "(if writes ''environments'' ?L = [] then [''local'']
        else specEnvironments (last (writes ''environments'' ?L))) = [''a'', ''b'']"
    by code_simp
  have w2: "(if writes ''strict'' ?L = [] then False
        else specStrict (last (writes ''strict'' ?L))) = False"
    by code_simp
  have w3: "(if filter (\<lambda>v. v \<noteq> []) (writes ''distPath'' ?L) = [] then ''.env.dist''
        else last (filter (\<lambda>v. v \<noteq> []) (writes ''distPath'' ?L))) = ''x''"
    by code_simp
  have k: "fst (ParseConfigLine ''#krakenv:color=red'') \<notin>
             {''environments'', ''strict'', ''distPath''}" by code_simp
  from ParseConfig_last_write_wins [of ?L] w1 w2 w3
  have a: "Environments (ParseConfig ?L) = [''a'', ''b''] \<and> Strict (ParseConfig ?L) = False \<and>
           DistPath (ParseConfig ?L) = ''x''"
    by presburger
  from ParseConfig_last_write_wins [of "[''#krakenv:strict=1'']" "''#krakenv:color=red''"] k
  have b: "ParseConfig ([''#krakenv:strict=1''] @ [''#krakenv:color=red'']) =
     ParseConfig [''#krakenv:strict=1'']" by blast
  from a b show ?thesis by blast
qed

section \<open>The integer validator\<close>

lemma validateInt_empty: "validateInt pt [] ann = Some ''value is required''"
  by (simp add: validateInt_def)

lemma validateInt_not_integer:
  "value \<noteq> [] \<Longrightarrow> ParseInt value = None \<Longrightarrow>
     validateInt pt value ann = Some (''expected integer, got '' @ Quote pt value)"
  by (simp add: validateInt_def)

text \<open>
  A value passes exactly when it parses and is neither below a \<open>min\<close> that parses nor
  above a \<open>max\<close> that parses; a bound that does not parse (the empty one too) is skipped.
\<close>

lemma validateInt_passes:
  "(validateInt pt value ann = None) =
     (\<exists>n. ParseInt value = Some n \<and>
          \<not> (\<exists>mn. ParseInt (GetConstraint ann ''min'') = Some mn \<and> n < mn) \<and>
          \<not> (\<exists>mx. ParseInt (GetConstraint ann ''max'') = Some mx \<and> mx < n))"
proof -
  have e: "ParseInt [] = None" by (simp add: ParseInt_def)
  show ?thesis
  proof (cases "ParseInt value")
    case None
    then show ?thesis by (simp add: validateInt_def)
  next
    case (Some n)
    with e have ne: "value \<noteq> []" by auto
    show ?thesis
    proof (cases "GetConstraint ann ''min'' = []")
      case True
      note mn = this
      show ?thesis
      proof (cases "GetConstraint ann ''max'' = []")
        case True
        with mn Some ne e show ?thesis by (simp add: validateInt_def)
      next
        case False
        with mn Some ne e show ?thesis
          by (cases "ParseInt (GetConstraint ann ''max'')") (auto simp: validateInt_def)
      qed
    next
      case False
      note mn = this
      show ?thesis
      proof (cases "GetConstraint ann ''max'' = []")
        case True
        with mn Some ne e show ?thesis
          by (cases "ParseInt (GetConstraint ann ''min'')") (auto simp: validateInt_def)
      next
        case False
        with mn Some ne e show ?thesis
          by (cases "ParseInt (GetConstraint ann ''min'')";
              cases "ParseInt (GetConstraint ann ''max'')")
             (auto simp: validateInt_def)
      qed
    qed
  qed
qed

lemma validateInt_boundaries:
  "validateInt pt ''1'' bounds1to10 = None"
  "validateInt pt ''10'' bounds1to10 = None"
  "validateInt pt ''0'' bounds1to10 = Some ''value 0 is below minimum 1''"
  "validateInt pt ''11'' bounds1to10 = Some ''value 11 exceeds maximum 10''"
  by (simp_all add: validateInt_def ParseInt_def isDigit_def byte_def GetConstraint_def
      bounds1to10_def showInt_def showNat.simps)

text \<open>
  \<open>%q\<close> on a value with a no-break space (U+00A0, not printable), on a byte that is not
  valid UTF-8, on a printable rune of two bytes, on control characters and the double
  quote, and on a rune of three bytes that the tables call not printable, or printable.
\<close>

lemma Quote_examples:
  "Quote pt [CHR ''1'', CHR 0xC2, CHR 0xA0, CHR ''0'', CHR ''0'', CHR ''0''] =
     [CHR 0x22, CHR ''1'', CHR 0x5C, CHR ''u'', CHR ''0'', CHR ''0'', CHR ''a'', CHR ''0'',
      CHR ''0'', CHR ''0'', CHR ''0'', CHR 0x22]"
  "Quote pt [CHR ''a'', CHR 0xFF] =
     [CHR 0x22, CHR ''a'', CHR 0x5C, CHR ''x'', CHR ''f'', CHR ''f'', CHR 0x22]"
  "Quote pt [CHR 0xC3, CHR 0xA9] = [CHR 0x22, CHR 0xC3, CHR 0xA9, CHR 0x22]"
  "Quote pt [CHR 0x0D, CHR 0x01, CHR 0x22] =
     [CHR 0x22, CHR 0x5C, CHR ''r'', CHR 0x5C, CHR ''x'', CHR ''0'', CHR ''1'', CHR 0x5C,
      CHR 0x22, CHR 0x22]"
  "Quote (\<lambda>r. False) [CHR 0xE2, CHR 0x80, CHR 0x8B] =
     [CHR 0x22, CHR 0x5C, CHR ''u'', CHR ''2'', CHR ''0'', CHR ''0'', CHR ''b'', CHR 0x22]"
  "Quote (\<lambda>r. True) [CHR 0xE2, CHR 0x82, CHR 0xAC] =
     [CHR 0x22, CHR 0xE2, CHR 0x82, CHR 0xAC, CHR 0x22]"
  by code_simp+

text \<open>
  A value with a no-break space between its digits is not an integer, and the message
  shows the space as \<open>\u00a0\<close>.
\<close>

lemma validateInt_no_break_space:
  "validateInt pt [CHR ''1'', CHR 0xC2, CHR 0xA0, CHR ''0'', CHR ''0'', CHR ''0''] bounds1to10 =
     Some (''expected integer, got '' @
           [CHR 0x22, CHR ''1'', CHR 0x5C, CHR ''u'', CHR ''0'', CHR ''0'', CHR ''a'', CHR ''0'',
            CHR ''0'', CHR ''0'', CHR ''0'', CHR 0x22])"
  by code_simp

lemma validateInt_abc:
  "validateInt pt ''abc'' bounds1to10 = Some (''expected integer, got '' @ [CHR 0x22] @ ''abc'' @ [CHR 0x22])"
  "getErrorType (''expected integer, got '' @ [CHR 0x22] @ ''abc'' @ [CHR 0x22]) = ErrorInvalidType"
  by code_simp+

text \<open>
  The class of an error is read off its message. The message of a value that is not an
  integer quotes the value, so for the value \<open>required\<close> \<open>getErrorType\<close> finds the word
  \<open>required\<close> and answers \<open>ErrorMissingRequired\<close>, the class of a variable that has no
  value, where \<open>ErrorInvalidType\<close> is meant.
\<close>

lemma validateInt_value_required_misclassified:
  "parseLines [''PORT=required #prompt:Port?|int''] ''.env'' =
     Inr \<lparr>Path = ''.env'',
          Variables = [\<lparr>Name = ''PORT'', Value = ''required'',
             Annotation = Some \<lparr>PromptText = ''Port?'', Type = TypeInt, Constraints = [],
                                 IsOptional = False, IsSecret = False\<rparr>,
             LineNumber = 1, IsSet = True\<rparr>],
          Config = None, Comments = []\<rparr>
   \<and> ParseInt ''required'' = None
   \<and> ValidateVariable lib
        \<lparr>Name = ''PORT'', Value = ''required'',
         Annotation = Some \<lparr>PromptText = ''Port?'', Type = TypeInt, Constraints = [],
                             IsOptional = False, IsSecret = False\<rparr>,
         LineNumber = 1, IsSet = True\<rparr> =
       Some (''expected integer, got '' @ [CHR 0x22] @ ''required'' @ [CHR 0x22],
             ErrorMissingRequired)"
proof -
  have a: "parseLines [''PORT=required #prompt:Port?|int''] ''.env'' =
     Inr \<lparr>Path = ''.env'',
          Variables = [\<lparr>Name = ''PORT'', Value = ''required'',
             Annotation = Some \<lparr>PromptText = ''Port?'', Type = TypeInt, Constraints = [],
                                 IsOptional = False, IsSecret = False\<rparr>,
             LineNumber = 1, IsSet = True\<rparr>],
          Config = None, Comments = []\<rparr>" by code_simp
  have b: "ParseInt ''required'' = None" by code_simp
  have c: "ValidateVariable lib
        \<lparr>Name = ''PORT'', Value = ''required'',
         Annotation = Some \<lparr>PromptText = ''Port?'', Type = TypeInt, Constraints = [],
                             IsOptional = False, IsSecret = False\<rparr>,
         LineNumber = 1, IsSet = True\<rparr> =
       Some (''expected integer, got '' @ [CHR 0x22] @ ''required'' @ [CHR 0x22],
             ErrorMissingRequired)" by code_simp
  from a b c show ?thesis by blast
qed

lemma ParseInt_Nil: "ParseInt [] = None"
  by (simp add: ParseInt_def)

text \<open>
  C2. For an annotation of type \<open>int\<close>, \<open>ValidateValue\<close> accepts the empty value when
  the annotation is optional and otherwise fails on it with "value is required", bounds or
  not. A value that is not empty and does not parse as a signed 64-bit integer in base 10
  fails with the message "expected integer, got" and the value as \<open>%q\<close> writes it, between
  double quotes with the runes that are not printable and the bytes that are not UTF-8
  escaped. A value that
  parses fails exactly when it is below a \<open>min\<close> that parses or above a \<open>max\<close> that
  parses; a bound that does not parse is skipped. A message that contains none of
  \<open>required\<close>, \<open>not in allowed\<close> and \<open>does not match\<close> is of class
  \<open>ErrorInvalidType\<close>, as the one for \<open>abc\<close> is. With \<open>min:1;max:10\<close> the values
  \<open>1\<close> and \<open>10\<close> pass, \<open>0\<close> and \<open>11\<close> fail.
\<close>

theorem ValidateValue_int:
  "Type ann = TypeInt \<Longrightarrow>
     ValidateValue lib [] (Some ann) =
       (if IsOptional ann then None else Some ''value is required'')
   \<and> (val \<noteq> [] \<and> ParseInt val = None \<longrightarrow>
        ValidateValue lib val (Some ann) = Some (''expected integer, got '' @ Quote (isPrintTables lib) val))
   \<and> (val \<noteq> [] \<longrightarrow>
        (ValidateValue lib val (Some ann) = None) =
          (\<exists>n. ParseInt val = Some n \<and>
             \<not> (\<exists>mn. ParseInt (GetConstraint ann ''min'') = Some mn \<and> n < mn) \<and>
             \<not> (\<exists>mx. ParseInt (GetConstraint ann ''max'') = Some mx \<and> mx < n)))
   \<and> (ValidateValue lib val (Some ann) = Some msg \<and> \<not> Contains msg ''required'' \<and>
       \<not> Contains msg ''not in allowed'' \<and> \<not> Contains msg ''does not match'' \<longrightarrow>
        getErrorType msg = ErrorInvalidType)
   \<and> ValidateValue lib ''1'' (Some bounds1to10) = None
   \<and> ValidateValue lib ''10'' (Some bounds1to10) = None
   \<and> ValidateValue lib ''0'' (Some bounds1to10) = Some ''value 0 is below minimum 1''
   \<and> ValidateValue lib ''11'' (Some bounds1to10) = Some ''value 11 exceeds maximum 10''
   \<and> ValidateValue lib ''abc'' (Some bounds1to10) =
        Some (''expected integer, got '' @ [CHR 0x22] @ ''abc'' @ [CHR 0x22])
   \<and> getErrorType (''expected integer, got '' @ [CHR 0x22] @ ''abc'' @ [CHR 0x22]) =
        ErrorInvalidType"
proof -
  assume t: "Type ann = TypeInt"
  have d: "ValidateValue lib v (Some ann) =
      (if v = [] \<and> IsOptional ann then None else validateInt (isPrintTables lib) v ann)" for v
    using t by (simp add: ValidateValue_def)
  have b: "ValidateValue lib v (Some bounds1to10) = validateInt (isPrintTables lib) v bounds1to10" for v
    by (simp add: ValidateValue_def bounds1to10_def)
  have 1: "ValidateValue lib [] (Some ann) =
       (if IsOptional ann then None else Some ''value is required'')"
    by (simp add: d validateInt_empty)
  have 2: "val \<noteq> [] \<and> ParseInt val = None \<longrightarrow>
        ValidateValue lib val (Some ann) = Some (''expected integer, got '' @ Quote (isPrintTables lib) val)"
    by (simp add: d validateInt_not_integer)
  have 3: "val \<noteq> [] \<longrightarrow>
        (ValidateValue lib val (Some ann) = None) =
          (\<exists>n. ParseInt val = Some n \<and>
             \<not> (\<exists>mn. ParseInt (GetConstraint ann ''min'') = Some mn \<and> n < mn) \<and>
             \<not> (\<exists>mx. ParseInt (GetConstraint ann ''max'') = Some mx \<and> mx < n))"
    using validateInt_passes[of "isPrintTables lib" val ann] by (simp add: d)
  have 4: "ValidateValue lib val (Some ann) = Some msg \<and> \<not> Contains msg ''required'' \<and>
       \<not> Contains msg ''not in allowed'' \<and> \<not> Contains msg ''does not match'' \<longrightarrow>
        getErrorType msg = ErrorInvalidType"
    by (simp add: getErrorType_def)
  from 1 2 3 4 show ?thesis
    unfolding b using validateInt_boundaries validateInt_abc by blast
qed

theorem ValidateValue_int_witness:
  "Type bounds1to10 = TypeInt \<and> ParseInt ''5x'' = None \<and>
   ValidateValue noOtherChecks ''5x'' (Some bounds1to10) =
     Some (''expected integer, got '' @ Quote (isPrintTables noOtherChecks) ''5x'') \<and>
   ValidateValue noOtherChecks [] (Some bounds1to10) = Some ''value is required'' \<and>
   getErrorType (''expected integer, got '' @ Quote (isPrintTables noOtherChecks) ''5x'') = ErrorInvalidType"
proof -
  have t: "Type bounds1to10 = TypeInt" by (simp add: bounds1to10_def)
  have o: "\<not> IsOptional bounds1to10" by (simp add: bounds1to10_def)
  have p: "''5x'' \<noteq> [] \<and> ParseInt ''5x'' = None" by code_simp
  have c: "\<not> Contains (''expected integer, got '' @ Quote (isPrintTables noOtherChecks) ''5x'') ''required'' \<and>
       \<not> Contains (''expected integer, got '' @ Quote (isPrintTables noOtherChecks) ''5x'') ''not in allowed'' \<and>
       \<not> Contains (''expected integer, got '' @ Quote (isPrintTables noOtherChecks) ''5x'') ''does not match''" by code_simp
  from ValidateValue_int [OF t, of noOtherChecks "''5x''" "''expected integer, got '' @ Quote (isPrintTables noOtherChecks) ''5x''"]
    t o p c show ?thesis by simp
qed

theorem ValidateValue_int_optional_counterexample:
  "parseLines [''PORT= #prompt:Port?|int;optional''] ''.env'' =
     Inr \<lparr>Path = ''.env'',
          Variables = [\<lparr>Name = ''PORT'', Value = [],
             Annotation = Some \<lparr>PromptText = ''Port?'', Type = TypeInt, Constraints = [],
                                 IsOptional = True, IsSecret = False\<rparr>,
             LineNumber = 1, IsSet = True\<rparr>],
          Config = None, Comments = []\<rparr>
   \<and> ValidateValue noOtherChecks []
        (Some \<lparr>PromptText = ''Port?'', Type = TypeInt, Constraints = [],
               IsOptional = True, IsSecret = False\<rparr>) = None"
  by code_simp

section \<open>The document assembler: names, positions, totality\<close>

lemma set_trimLeftRunes: "set (trimLeftRunes ws s) \<subseteq> set s"
proof (induction ws s rule: trimLeftRunes.induct)
  case (1 ws s)
  show ?case
  proof (cases "find (\<lambda>w. HasPrefix s w) ws")
    case None
    then show ?thesis by (simp add: trimLeftRunes.simps)
  next
    case (Some w)
    show ?thesis
    proof (cases "w = []")
      case True
      with Some show ?thesis by (simp add: trimLeftRunes.simps)
    next
      case False
      from "1.IH"[OF Some False] have "set (trimLeftRunes ws (drop (length w) s)) \<subseteq> set s"
        using set_drop_subset by fastforce
      with Some False show ?thesis by (simp add: trimLeftRunes.simps[of ws s])
    qed
  qed
qed

lemma set_TrimSpace: "set (TrimSpace s) \<subseteq> set s"
proof -
  have "set (trimRightSpace t) \<subseteq> set t" for t
    using set_trimLeftRunes[of "map rev spaceRunes" "rev t"] by (simp add: trimRightSpace_def)
  moreover have "set (trimLeftSpace s) \<subseteq> set s"
    by (simp add: trimLeftSpace_def set_trimLeftRunes)
  ultimately show ?thesis unfolding TrimSpace_def by blast
qed

lemma HasPrefix_append: "HasPrefix s (p @ q) \<Longrightarrow> HasPrefix s p"
proof -
  assume "HasPrefix s (p @ q)"
  then have e: "take (length p + length q) s = p @ q" by (simp add: HasPrefix_def)
  have "take (length p) s = take (length p) (take (length p + length q) s)" by simp
  also have "\<dots> = p" by (simp only: e) simp
  finally show ?thesis by (simp add: HasPrefix_def)
qed

lemma TokenizeLine_name:
  assumes "TokenizeLine l = (name, value, ann, err)" and "name \<noteq> []"
  shows "TrimSpace l \<noteq> [] \<and> \<not> HasPrefix (TrimSpace l) ''#'' \<and> err = None \<and>
         (\<exists>i. Index (TrimSpace l) ''='' = Some i \<and> name = TrimSpace (take i (TrimSpace l)) \<and>
              variableNamePattern name \<and>
              (case Index (drop (i + 1) (TrimSpace l)) '' #prompt:'' of
                 None \<Rightarrow> value = parseValue (TrimSpace (drop (i + 1) (TrimSpace l))) \<and> ann = []
               | Some k \<Rightarrow>
                   value = parseValue (TrimSpace (take k (drop (i + 1) (TrimSpace l)))) \<and>
                   ann = TrimSpace (drop (k + 1) (drop (i + 1) (TrimSpace l)))))"
proof -
  have ne: "TrimSpace l \<noteq> []"
    using assms by (cases "TrimSpace l = []") (simp_all add: TokenizeLine_def)
  have nc: "\<not> HasPrefix (TrimSpace l) ''#''"
    using assms ne by (cases "HasPrefix (TrimSpace l) ''#''") (simp_all add: TokenizeLine_def)
  obtain i where i: "Index (TrimSpace l) ''='' = Some i"
    using assms ne nc by (cases "Index (TrimSpace l) ''=''") (simp_all add: TokenizeLine_def)
  have n1: "TrimSpace (take i (TrimSpace l)) \<noteq> []"
    using assms ne nc i
    by (cases "TrimSpace (take i (TrimSpace l)) = []") (simp_all add: TokenizeLine_def)
  have n2: "variableNamePattern (TrimSpace (take i (TrimSpace l)))"
    using assms ne nc i n1
    by (cases "variableNamePattern (TrimSpace (take i (TrimSpace l)))")
       (simp_all add: TokenizeLine_def)
  have rest: "name = TrimSpace (take i (TrimSpace l)) \<and> err = None \<and>
      (case Index (drop (i + 1) (TrimSpace l)) '' #prompt:'' of
                 None \<Rightarrow> value = parseValue (TrimSpace (drop (i + 1) (TrimSpace l))) \<and> ann = []
               | Some k \<Rightarrow>
                   value = parseValue (TrimSpace (take k (drop (i + 1) (TrimSpace l)))) \<and>
                   ann = TrimSpace (drop (k + 1) (drop (i + 1) (TrimSpace l))))"
    using assms(1) ne nc i n1 n2
    by (cases "Index (drop (i + 1) (TrimSpace l)) '' #prompt:''")
       (auto simp add: TokenizeLine_def Let_def)
  with ne nc i n2 show ?thesis by blast
qed

lemma lineVariable_Some:
  "lineVariable n l = Some v \<Longrightarrow>
     TrimSpace l \<noteq> [] \<and> \<not> HasPrefix (TrimSpace l) ''#'' \<and> Contains l ''='' \<and> IsSet v
     \<and> LineNumber v = n"
proof -
  assume a: "lineVariable n l = Some v"
  obtain name val ann err where t: "TokenizeLine l = (name, val, ann, err)"
    by (cases "TokenizeLine l") auto
  from a t have nm: "name \<noteq> []"
    by (cases "err = None"; cases "name = []") (simp_all add: lineVariable_def)
  from TokenizeLine_name[OF t nm]
  have ne: "TrimSpace l \<noteq> []" and nc: "\<not> HasPrefix (TrimSpace l) ''#''"
    and ix: "Index (TrimSpace l) ''='' \<noteq> None" and er: "err = None"
    by auto
  from ix have "CHR ''='' \<in> set (TrimSpace l)" by (simp add: Index_char_None)
  then have "CHR ''='' \<in> set l" using set_TrimSpace by blast
  then have c: "Contains l ''=''" by (simp add: Contains_def Index_char_None)
  from a t nm er c have "IsSet v \<and> LineNumber v = n"
    by (auto simp: lineVariable_def)
  with ne nc c show ?thesis by blast
qed

lemma parseLine_variable:
  "lineVariable (n + 1) l = Some v \<Longrightarrow> parseLine n l st = storeVariable v st"
proof -
  assume a: "lineVariable (n + 1) l = Some v"
  from lineVariable_Some[OF a] have ne: "TrimSpace l \<noteq> []" and nc: "\<not> HasPrefix (TrimSpace l) ''#''"
    by blast+
  from nc have "\<not> HasPrefix (TrimSpace l) (''#'' @ ''krakenv:'')"
    using HasPrefix_append by blast
  then have "\<not> IsConfigLine l" by (simp add: IsConfigLine_def)
  with ne nc a show ?thesis
    by (simp add: parseLine_def IsComment_def IsEmptyLine_def)
qed

lemma parseLine_no_variable:
  assumes "lineVariable (n + 1) l = None"
  shows "\<exists>st'. parseLine n l st = Inr st' \<and> Variables (envFile st') = Variables (envFile st)
        \<and> varPositions st' = varPositions st"
proof (cases "IsConfigLine l")
  case True
  then show ?thesis by (simp add: parseLine_def)
next
  case False
  note nc = this
  show ?thesis
  proof (cases "IsComment l \<and> \<not> IsAnnotationLine l")
    case True
    with nc show ?thesis
      by (cases "ExtractCommentText l = []") (simp_all add: parseLine_def Let_def)
  next
    case False
    with nc assms show ?thesis
      by (cases "IsEmptyLine l") (auto simp add: parseLine_def)
  qed
qed

lemma storeVariable_new:
  "positionsOK st \<Longrightarrow> Name v \<notin> set (map Name (Variables (envFile st))) \<Longrightarrow>
     \<exists>st'. storeVariable v st = Inr st' \<and> positionsOK st' \<and>
           Variables (envFile st') = Variables (envFile st) @ [v] \<and>
           configLines st' = configLines st \<and> Comments (envFile st') = Comments (envFile st)
           \<and> Path (envFile st') = Path (envFile st) \<and> Config (envFile st') = Config (envFile st)"
proof -
  assume ok: "positionsOK st" and new: "Name v \<notin> set (map Name (Variables (envFile st)))"
  let ?vs = "Variables (envFile st)"
  have none: "varPositions st (Name v) = None"
  proof (cases "varPositions st (Name v)")
    case None then show ?thesis .
  next
    case (Some i)
    with ok have "i < length ?vs \<and> Name (?vs ! i) = Name v" by (simp add: positionsOK_def)
    then have "Name v \<in> set (map Name ?vs)" by (metis length_map nth_map nth_mem)
    with new show ?thesis by blast
  qed
  let ?st' = "st\<lparr>varPositions := (varPositions st)(Name v \<mapsto> length ?vs),
                   envFile := (envFile st)\<lparr>Variables := ?vs @ [v]\<rparr>\<rparr>"
  have eq: "storeVariable v st = Inr ?st'" using none by (simp add: storeVariable_def)
  have "positionsOK ?st'"
    unfolding positionsOK_def
  proof (intro conjI allI)
    show "distinct (map Name (Variables (envFile ?st')))"
      using ok new by (simp add: positionsOK_def)
  next
    fix name i
    show "(varPositions ?st' name = Some i) =
            (i < length (Variables (envFile ?st')) \<and> Name (Variables (envFile ?st') ! i) = name)"
    proof (cases "name = Name v")
      case True
      have "\<And>j. j < length ?vs \<Longrightarrow> Name (?vs ! j) \<noteq> Name v"
        using new by (metis length_map nth_map nth_mem)
      with True show ?thesis by (auto simp: nth_append less_Suc_eq)
    next
      case False
      with ok show ?thesis by (auto simp: positionsOK_def nth_append less_Suc_eq)
    qed
  qed
  with eq show ?thesis by simp
qed

lemma storeVariable_existing:
  "positionsOK st \<Longrightarrow> i < length (Variables (envFile st)) \<Longrightarrow>
   Name (Variables (envFile st) ! i) = Name v \<Longrightarrow>
     \<exists>st'. storeVariable v st = Inr st' \<and> positionsOK st' \<and>
           Variables (envFile st') = (Variables (envFile st))[i := v] \<and>
           configLines st' = configLines st \<and> Comments (envFile st') = Comments (envFile st)
           \<and> Path (envFile st') = Path (envFile st) \<and> Config (envFile st') = Config (envFile st)"
proof -
  assume ok: "positionsOK st" and i: "i < length (Variables (envFile st))"
    and n: "Name (Variables (envFile st) ! i) = Name v"
  let ?vs = "Variables (envFile st)"
  from ok i n have pos: "varPositions st (Name v) = Some i" by (simp add: positionsOK_def)
  let ?st' = "st\<lparr>envFile := (envFile st)\<lparr>Variables := ?vs[i := v]\<rparr>\<rparr>"
  have eq: "storeVariable v st = Inr ?st'" using pos i by (simp add: storeVariable_def)
  have names: "map Name (?vs[i := v]) = map Name ?vs"
    using i n by (simp add: map_update list_update_same_conv)
  have nth: "Name (?vs[i := v] ! j) = Name (?vs ! j)" if "j < length ?vs" for j
    using n that by (cases "j = i") simp_all
  have "positionsOK ?st'"
    unfolding positionsOK_def
  proof (intro conjI allI)
    show "distinct (map Name (Variables (envFile ?st')))"
      using ok names by (simp add: positionsOK_def)
  next
    fix name j
    have "(varPositions st name = Some j) = (j < length ?vs \<and> Name (?vs ! j) = name)"
      using ok by (simp add: positionsOK_def)
    moreover have "j < length ?vs \<Longrightarrow> Name (?vs[i := v] ! j) = Name (?vs ! j)"
      by (rule nth)
    ultimately show "(varPositions ?st' name = Some j) =
        (j < length (Variables (envFile ?st')) \<and> Name (Variables (envFile ?st') ! j) = name)"
      by auto
  qed
  with eq show ?thesis by simp
qed

lemma positionsOK_cong:
  assumes a: "Variables (envFile st') = Variables (envFile st)"
    and b: "varPositions st' = varPositions st"
  shows "positionsOK st' = positionsOK st"
  unfolding positionsOK_def a b by (rule refl)

lemma parseLine_ok:
  assumes ok: "positionsOK st"
  shows "\<exists>st'. parseLine n l st = Inr st' \<and> positionsOK st' \<and>
           stored (Variables (envFile st)) (lineVariable (n + 1) l) (Variables (envFile st'))"
proof (cases "lineVariable (n + 1) l")
  case None
  from parseLine_no_variable[OF None, of st] obtain st' where
    st': "parseLine n l st = Inr st'" "Variables (envFile st') = Variables (envFile st)"
         "varPositions st' = varPositions st" by blast
  from positionsOK_cong[OF st'(2,3)] ok have "positionsOK st'" by simp
  with st' None show ?thesis by (simp add: stored_def)
next
  case (Some v)
  have pl: "parseLine n l st = storeVariable v st" by (rule parseLine_variable[OF Some])
  show ?thesis
  proof (cases "Name v \<in> set (map Name (Variables (envFile st)))")
    case True
    then obtain i where i: "i < length (Variables (envFile st))"
        "Name (Variables (envFile st) ! i) = Name v"
      by (auto simp: in_set_conv_nth)
    from storeVariable_existing[OF ok i] obtain st' where
      "storeVariable v st = Inr st'" "positionsOK st'"
      "Variables (envFile st') = (Variables (envFile st))[i := v]" by blast
    with pl Some True i show ?thesis by (auto simp: stored_def)
  next
    case False
    from storeVariable_new[OF ok False] obtain st' where
      "storeVariable v st = Inr st'" "positionsOK st'"
      "Variables (envFile st') = Variables (envFile st) @ [v]" by blast
    with pl Some False show ?thesis by (auto simp: stored_def)
  qed
qed

lemma parseLoop_snoc:
  "parseLoop n (ls @ [l]) st =
     (case parseLoop n ls st of Inl e \<Rightarrow> Inl e | Inr st' \<Rightarrow> parseLine (n + length ls) l st')"
  by (induction ls arbitrary: n st) (auto split: sum.splits)

lemma parseLoop_ok:
  "positionsOK st \<Longrightarrow> \<exists>st'. parseLoop n ls st = Inr st' \<and> positionsOK st'"
proof (induction ls arbitrary: n st)
  case Nil
  then show ?case by simp
next
  case (Cons l ls)
  from parseLine_ok[OF Cons.prems, of n l] obtain st1 where
    s1: "parseLine n l st = Inr st1" "positionsOK st1" by blast
  from Cons.IH[OF s1(2), of "Suc n"] s1(1) show ?case by simp
qed

lemma initialState_ok: "positionsOK (initialState p)"
  by (simp add: positionsOK_def initialState_def)

lemma parseLines_Variables:
  "parseLoop 0 ls (initialState p) = Inr st \<Longrightarrow>
     \<exists>d. parseLines ls p = Inr d \<and> Variables d = Variables (envFile st)"
  by (simp add: parseLines_def)

lemma parseLines_total: "\<exists>d. parseLines ls p = Inr d"
proof -
  have "\<exists>st. parseLoop 0 ls (initialState p) = Inr st \<and> positionsOK st"
    by (rule parseLoop_ok[OF initialState_ok])
  then show ?thesis using parseLines_Variables by blast
qed

text \<open>
  C1. The variables of a document have distinct names. A line that defines a name already
  there replaces the earlier entry at its position with the new variable (its value, its
  annotation and its line number); a new name is appended. For \<open>A=1\<close> then \<open>A=2\<close> the
  document has the one variable \<open>A\<close>, with value \<open>2\<close>.
\<close>

theorem parseLines_duplicates:
  "(\<exists>d d'. parseLines ls p = Inr d \<and> parseLines (ls @ [l]) p = Inr d' \<and>
       distinct (map Name (Variables d)) \<and>
       stored (Variables d) (lineVariable (length ls + 1) l) (Variables d'))
   \<and> parseLines [''A=1'', ''A=2''] p =
        Inr \<lparr>Path = p,
             Variables = [\<lparr>Name = ''A'', Value = ''2'', Annotation = None, LineNumber = 2,
                           IsSet = True\<rparr>],
             Config = None, Comments = []\<rparr>"
proof -
  have "\<exists>st. parseLoop 0 ls (initialState p) = Inr st \<and> positionsOK st"
    by (rule parseLoop_ok[OF initialState_ok])
  then obtain st where
    st: "parseLoop 0 ls (initialState p) = Inr st" "positionsOK st" by blast
  from parseLine_ok[OF st(2), of "length ls" l] obtain st' where
    st': "parseLine (length ls) l st = Inr st'"
         "stored (Variables (envFile st)) (lineVariable (length ls + 1) l) (Variables (envFile st'))"
    by blast
  from st st' have lp: "parseLoop 0 (ls @ [l]) (initialState p) = Inr st'"
    by (simp add: parseLoop_snoc)
  from parseLines_Variables[OF st(1)] obtain d where
    d: "parseLines ls p = Inr d" "Variables d = Variables (envFile st)" by blast
  from parseLines_Variables[OF lp] obtain d' where
    d': "parseLines (ls @ [l]) p = Inr d'" "Variables d' = Variables (envFile st')" by blast
  from st(2) d(2) have "distinct (map Name (Variables d))" by (simp add: positionsOK_def)
  with d d' st'(2) have a: "\<exists>d d'. parseLines ls p = Inr d \<and> parseLines (ls @ [l]) p = Inr d' \<and>
       distinct (map Name (Variables d)) \<and>
       stored (Variables d) (lineVariable (length ls + 1) l) (Variables d')" by auto
  have b: "parseLines [''A=1'', ''A=2''] p =
        Inr \<lparr>Path = p,
             Variables = [\<lparr>Name = ''A'', Value = ''2'', Annotation = None, LineNumber = 2,
                           IsSet = True\<rparr>],
             Config = None, Comments = []\<rparr>" by code_simp
  from a b show ?thesis by blast
qed

theorem parseLines_duplicates_witness:
  "\<exists>d'. parseLines [''A=1'', ''B=3'', ''A=2''] ''p'' = Inr d' \<and>
     Variables d' =
       [\<lparr>Name = ''A'', Value = ''2'', Annotation = None, LineNumber = 3, IsSet = True\<rparr>,
        \<lparr>Name = ''B'', Value = ''3'', Annotation = None, LineNumber = 2, IsSet = True\<rparr>]"
proof -
  let ?vs = "[\<lparr>Name = ''A'', Value = ''1'', Annotation = None, LineNumber = 1, IsSet = True\<rparr>,
        \<lparr>Name = ''B'', Value = ''3'', Annotation = None, LineNumber = 2, IsSet = True\<rparr>]"
  let ?v = "\<lparr>Name = ''A'', Value = ''2'', Annotation = None, LineNumber = 3, IsSet = True\<rparr>"
  have first: "parseLines [''A=1'', ''B=3''] ''p'' =
      Inr \<lparr>Path = ''p'', Variables = ?vs, Config = None, Comments = []\<rparr>" by code_simp
  have lv: "lineVariable (length [''A=1'', ''B=3''] + 1) ''A=2'' = Some ?v" by code_simp
  from parseLines_duplicates [of "[''A=1'', ''B=3'']" "''p''" "''A=2''"] obtain d d' where
    d: "parseLines [''A=1'', ''B=3''] ''p'' = Inr d"
    and d': "parseLines ([''A=1'', ''B=3''] @ [''A=2'']) ''p'' = Inr d'"
    and st: "stored (Variables d) (lineVariable (length [''A=1'', ''B=3''] + 1) ''A=2'') (Variables d')"
    by blast
  have vs: "Variables d = ?vs" using d unfolding first by auto
  from st have "\<exists>i<length ?vs. Name (?vs ! i) = Name ?v \<and> Variables d' = ?vs[i := ?v]"
    unfolding vs lv by (simp add: stored_def)
  then obtain i where i1: "i < length ?vs" and i2: "Name (?vs ! i) = Name ?v"
    and i3: "Variables d' = ?vs[i := ?v]" by blast
  from i1 have "i = 0 \<or> i = 1" by auto
  moreover have "i \<noteq> 1" using i2 by auto
  ultimately have "i = 0" by blast
  with i3 have "Variables d' = [?v, \<lparr>Name = ''B'', Value = ''3'', Annotation = None,
      LineNumber = 2, IsSet = True\<rparr>]" by simp
  with d' show ?thesis by simp
qed

lemma stored_all:
  "stored vs new vs' \<Longrightarrow> \<forall>v\<in>set vs. P v \<Longrightarrow> (\<And>v. new = Some v \<Longrightarrow> P v) \<Longrightarrow>
     \<forall>v\<in>set vs'. P v"
proof (cases new)
  case None
  assume "stored vs new vs'" "\<forall>v\<in>set vs. P v"
  with None show ?thesis by (simp add: stored_def)
next
  case (Some v)
  assume s: "stored vs new vs'" and a: "\<forall>v\<in>set vs. P v" and n: "\<And>v. new = Some v \<Longrightarrow> P v"
  from n Some have pv: "P v" by simp
  show ?thesis
  proof (cases "Name v \<in> set (map Name vs)")
    case True
    with s Some obtain i where "vs' = vs[i := v]" by (auto simp: stored_def)
    with a pv set_update_subset_insert[of vs i v] show ?thesis by auto
  next
    case False
    with s Some have "vs' = vs @ [v]" by (auto simp: stored_def)
    with a pv show ?thesis by auto
  qed
qed

lemma parseLoop_all:
  assumes P: "\<And>k l v. lineVariable k l = Some v \<Longrightarrow> P v"
  shows "positionsOK st \<Longrightarrow> \<forall>v\<in>set (Variables (envFile st)). P v \<Longrightarrow>
     \<exists>st'. parseLoop n ls st = Inr st' \<and> positionsOK st' \<and>
           (\<forall>v\<in>set (Variables (envFile st')). P v)"
proof (induction ls arbitrary: n st)
  case Nil
  then show ?case by simp
next
  case (Cons l ls)
  from parseLine_ok[OF Cons.prems(1), of n l] obtain st1 where
    s1: "parseLine n l st = Inr st1" "positionsOK st1"
        "stored (Variables (envFile st)) (lineVariable (n + 1) l) (Variables (envFile st1))"
    by blast
  have "\<forall>v\<in>set (Variables (envFile st1)). P v"
    by (rule stored_all[OF s1(3) Cons.prems(2)]) (rule P)
  from Cons.IH[OF s1(2) this, of "Suc n"] s1(1) show ?case by simp
qed

lemma parseLines_all:
  assumes P: "\<And>k l v. lineVariable k l = Some v \<Longrightarrow> P v"
  shows "\<exists>d. parseLines ls p = Inr d \<and> distinct (map Name (Variables d)) \<and>
             (\<forall>v\<in>set (Variables d). P v)"
proof -
  have "\<exists>st. parseLoop 0 ls (initialState p) = Inr st \<and> positionsOK st \<and>
           (\<forall>v\<in>set (Variables (envFile st)). P v)"
  proof (rule parseLoop_all)
    show "\<And>k l v. lineVariable k l = Some v \<Longrightarrow> P v" by (rule P)
    show "positionsOK (initialState p)" by (rule initialState_ok)
    show "\<forall>v\<in>set (Variables (envFile (initialState p))). P v"
      by (simp add: initialState_def)
  qed
  then obtain st where
    st: "parseLoop 0 ls (initialState p) = Inr st" "positionsOK st"
        "\<forall>v\<in>set (Variables (envFile st)). P v" by blast
  from parseLines_Variables[OF st(1)] obtain d where
    "parseLines ls p = Inr d" "Variables d = Variables (envFile st)" by blast
  with st(2,3) show ?thesis by (auto simp: positionsOK_def)
qed

text \<open>
  C9. Every variable of a document has \<open>IsSet\<close> true: a line that gives a variable
  contains an \<open>=\<close>.
\<close>

theorem parsed_variables_IsSet:
  "(\<exists>doc. parseLines lines path = Inr doc \<and> (\<forall>v\<in>set (Variables doc). IsSet v))
   \<and> (lineVariable n line = Some v \<longrightarrow> Contains line ''='' \<and> IsSet v)"
proof -
  have "\<exists>d. parseLines lines path = Inr d \<and> distinct (map Name (Variables d)) \<and>
             (\<forall>v\<in>set (Variables d). IsSet v)"
    by (rule parseLines_all) (simp add: lineVariable_Some)
  moreover have "lineVariable n line = Some v \<longrightarrow> Contains line ''='' \<and> IsSet v"
    by (simp add: lineVariable_Some)
  ultimately show ?thesis by blast
qed

theorem parsed_variables_IsSet_witness:
  "(\<exists>doc. parseLines [''A='', ''# note'', ''B=x''] ''p'' = Inr doc \<and>
       length (Variables doc) = 2 \<and> (\<forall>v\<in>set (Variables doc). IsSet v))
   \<and> Contains ''A='' ''='' \<and>
     lineVariable 1 ''A='' =
       Some \<lparr>Name = ''A'', Value = [], Annotation = None, LineNumber = 1, IsSet = True\<rparr>"
proof -
  have a: "parseLines [''A='', ''# note'', ''B=x''] ''p'' =
     Inr \<lparr>Path = ''p'',
          Variables = [\<lparr>Name = ''A'', Value = [], Annotation = None, LineNumber = 1, IsSet = True\<rparr>,
                       \<lparr>Name = ''B'', Value = ''x'', Annotation = None, LineNumber = 3, IsSet = True\<rparr>],
          Config = None, Comments = [\<lparr>Text = ''note'', CommentLine = 2\<rparr>]\<rparr>" by code_simp
  have b: "lineVariable 1 ''A='' =
       Some \<lparr>Name = ''A'', Value = [], Annotation = None, LineNumber = 1, IsSet = True\<rparr>"
    by code_simp
  from parsed_variables_IsSet [of "[''A='', ''# note'', ''B=x'']" "''p''" 1 "''A=''"
      "\<lparr>Name = ''A'', Value = [], Annotation = None, LineNumber = 1, IsSet = True\<rparr>"] a b
  show ?thesis by auto
qed

lemma parseLoop_append:
  "parseLoop n (xs @ ys) st =
     (case parseLoop n xs st of Inl e \<Rightarrow> Inl e | Inr st' \<Rightarrow> parseLoop (n + length xs) ys st')"
  by (induction xs arbitrary: n st) (auto split: sum.splits)

lemma TrimSpace_Nil: "TrimSpace [] = []"
  by code_simp

lemma parseLine_blank: "parseLine n [] st = Inr st"
proof -
  have "\<not> IsConfigLine []" "\<not> IsComment []" "IsEmptyLine []"
    by (simp_all add: IsConfigLine_def IsComment_def IsEmptyLine_def TrimSpace_Nil HasPrefix_def)
  then show ?thesis by (simp add: parseLine_def)
qed

lemma TokenizeLine_error:
  assumes "snd (snd (snd (TokenizeLine l))) \<noteq> None"
  shows "TrimSpace l \<noteq> [] \<and> \<not> HasPrefix (TrimSpace l) ''#''"
proof -
  have ne: "TrimSpace l \<noteq> []"
    using assms by (cases "TrimSpace l = []") (simp_all add: TokenizeLine_def)
  have nc: "\<not> HasPrefix (TrimSpace l) ''#''"
    using assms ne by (cases "HasPrefix (TrimSpace l) ''#''") (simp_all add: TokenizeLine_def)
  from ne nc show ?thesis by blast
qed

lemma parseLine_tokenize_error:
  assumes "snd (snd (snd (TokenizeLine l))) \<noteq> None"
  shows "parseLine n l st = Inr st"
proof -
  from TokenizeLine_error[OF assms]
  have ne: "TrimSpace l \<noteq> []" and nc: "\<not> HasPrefix (TrimSpace l) ''#''" by blast+
  from nc have "\<not> HasPrefix (TrimSpace l) (''#'' @ ''krakenv:'')"
    using HasPrefix_append by blast
  then have ncfg: "\<not> IsConfigLine l" by (simp add: IsConfigLine_def)
  have lv: "lineVariable (n + 1) l = None"
    using assms by (cases "TokenizeLine l") (simp add: lineVariable_def)
  from ne nc ncfg lv show ?thesis
    by (simp add: parseLine_def IsComment_def IsEmptyLine_def)
qed

lemma lineVariable_bad_annotation:
  assumes t: "TokenizeLine l = (name, value, annotationStr, None)" and n: "name \<noteq> []"
    and a: "ParseAnnotation annotationStr = Inl e"
  shows "lineVariable k l =
           Some \<lparr>Name = name, Value = TrimSpace value, Annotation = None, LineNumber = k,
                 IsSet = True\<rparr>"
proof -
  have lv: "lineVariable k l =
           Some \<lparr>Name = name, Value = TrimSpace value, Annotation = None, LineNumber = k,
                 IsSet = (value \<noteq> [] \<or> Contains l ''='')\<rparr>"
    using t n a by (simp add: lineVariable_def)
  from lineVariable_Some[OF lv] have "Contains l ''=''" by blast
  with lv show ?thesis by simp
qed

text \<open>
  C7. \<open>parseLines\<close> always returns a document. A line whose tokenization fails changes
  nothing: the document is the one of the same lines with an empty line in its place. A
  line whose annotation does not parse gives its variable, without annotation.
\<close>

theorem parseLines_total_best_effort:
  "(\<exists>doc. parseLines lines path = Inr doc)
   \<and> (snd (snd (snd (TokenizeLine line))) \<noteq> None \<longrightarrow>
        parseLine n line st = Inr st \<and>
        parseLines (xs @ [line] @ ys) path = parseLines (xs @ [[]] @ ys) path)
   \<and> (TokenizeLine line = (name, val, annotationStr, None) \<and> name \<noteq> [] \<and>
       ParseAnnotation annotationStr = Inl e \<longrightarrow>
        lineVariable (length xs + 1) line =
          Some \<lparr>Name = name, Value = TrimSpace val, Annotation = None,
                LineNumber = length xs + 1, IsSet = True\<rparr> \<and>
        (\<exists>doc. parseLines (xs @ [line]) path = Inr doc \<and>
           \<lparr>Name = name, Value = TrimSpace val, Annotation = None,
            LineNumber = length xs + 1, IsSet = True\<rparr> \<in> set (Variables doc)))"
proof (intro conjI impI)
  show "\<exists>doc. parseLines lines path = Inr doc" by (rule parseLines_total)
next
  assume e: "snd (snd (snd (TokenizeLine line))) \<noteq> None"
  show "parseLine n line st = Inr st" by (rule parseLine_tokenize_error[OF e])
  have "parseLoop k (line # ys) s = parseLoop k ([] # ys) s" for k s
    by (simp add: parseLine_tokenize_error[OF e] parseLine_blank)
  then have "parseLoop 0 (xs @ [line] @ ys) (initialState path) =
        parseLoop 0 (xs @ [[]] @ ys) (initialState path)"
    by (simp add: parseLoop_append split: sum.splits)
  then show "parseLines (xs @ [line] @ ys) path = parseLines (xs @ [[]] @ ys) path"
    by (simp add: parseLines_def)
next
  assume h: "TokenizeLine line = (name, val, annotationStr, None) \<and> name \<noteq> [] \<and>
       ParseAnnotation annotationStr = Inl e"
  let ?v = "\<lparr>Name = name, Value = TrimSpace val, Annotation = None,
                LineNumber = length xs + 1, IsSet = True\<rparr>"
  from h show lv: "lineVariable (length xs + 1) line = Some ?v"
    using lineVariable_bad_annotation by blast
  have "\<exists>st. parseLoop 0 xs (initialState path) = Inr st \<and> positionsOK st"
    by (rule parseLoop_ok[OF initialState_ok])
  then obtain st where st: "parseLoop 0 xs (initialState path) = Inr st" "positionsOK st"
    by blast
  from parseLine_ok[OF st(2), of "length xs" line] obtain st' where
    st': "parseLine (length xs) line st = Inr st'"
         "stored (Variables (envFile st)) (lineVariable (length xs + 1) line) (Variables (envFile st'))"
    by blast
  from st'(2) have "?v \<in> set (Variables (envFile st'))"
    unfolding lv by (auto simp: stored_def set_update_memI split: if_splits)
  moreover from st st' have "parseLoop 0 (xs @ [line]) (initialState path) = Inr st'"
    by (simp add: parseLoop_snoc)
  ultimately show "\<exists>doc. parseLines (xs @ [line]) path = Inr doc \<and> ?v \<in> set (Variables doc)"
    using parseLines_Variables by fastforce
qed

theorem parseLines_total_best_effort_witness:
  "parseLines [''A=1'', ''b=2'', ''C=3 #prompt:no pipe''] ''p'' =
     parseLines [''A=1'', [], ''C=3 #prompt:no pipe''] ''p'' \<and>
   (\<exists>doc. parseLines ([''A=1'', ''b=2''] @ [''C=3 #prompt:no pipe'']) ''p'' = Inr doc \<and>
      \<lparr>Name = ''C'', Value = ''3'', Annotation = None, LineNumber = 3, IsSet = True\<rparr>
        \<in> set (Variables doc))"
proof -
  have e: "snd (snd (snd (TokenizeLine ''b=2''))) \<noteq> None" by code_simp
  have t: "TokenizeLine ''C=3 #prompt:no pipe'' = (''C'', ''3'', ''#prompt:no pipe'', None)"
    by code_simp
  have a: "ParseAnnotation ''#prompt:no pipe'' = Inl MissingSeparator" by code_simp
  have v: "TrimSpace ''3'' = ''3''" by code_simp
  from parseLines_total_best_effort
    [where line = "''b=2''" and xs = "[''A=1'']" and ys = "[''C=3 #prompt:no pipe'']"
       and path = "''p''"] e
  have 1: "parseLines ([''A=1''] @ [''b=2''] @ [''C=3 #prompt:no pipe'']) ''p'' =
     parseLines ([''A=1''] @ [[]] @ [''C=3 #prompt:no pipe'']) ''p''" by blast
  from parseLines_total_best_effort
    [where line = "''C=3 #prompt:no pipe''" and xs = "[''A=1'', ''b=2'']" and path = "''p''"
       and name = "''C''" and val = "''3''" and annotationStr = "''#prompt:no pipe''"
       and e = MissingSeparator] t a
  have 2: "\<exists>doc. parseLines ([''A=1'', ''b=2''] @ [''C=3 #prompt:no pipe'']) ''p'' = Inr doc \<and>
      \<lparr>Name = ''C'', Value = TrimSpace ''3'', Annotation = None,
       LineNumber = length [''A=1'', ''b=2''] + 1, IsSet = True\<rparr> \<in> set (Variables doc)"
    by blast
  from 1 2 show ?thesis by (simp add: v numeral_3_eq_3)
qed

section \<open>What \<open>TrimSpace\<close> leaves\<close>

lemma find_None_noPrefix: "(find (\<lambda>w. HasPrefix s w) ws = None) = noPrefix ws s"
  by (auto simp: find_None_iff noPrefix_def)

lemma trimLeftRunes_noPrefix: "[] \<notin> set ws \<Longrightarrow> noPrefix ws (trimLeftRunes ws s)"
proof (induction ws s rule: trimLeftRunes.induct)
  case (1 ws s)
  show ?case
  proof (cases "find (\<lambda>w. HasPrefix s w) ws")
    case None
    then have np: "noPrefix ws s" by (simp add: find_None_noPrefix)
    from None have "trimLeftRunes ws s = s" by (simp add: trimLeftRunes.simps[of ws s])
    with np show ?thesis by simp
  next
    case (Some w)
    then have "w \<in> set ws" by (auto simp: find_Some_iff in_set_conv_nth)
    with "1.prems" have ne: "w \<noteq> []" by auto
    from "1.IH"[OF Some ne "1.prems"] Some ne show ?thesis
      by (simp add: trimLeftRunes.simps[of ws s])
  qed
qed

lemma trimLeftRunes_id: "noPrefix ws s \<Longrightarrow> trimLeftRunes ws s = s"
proof -
  assume "noPrefix ws s"
  then have "find (\<lambda>w. HasPrefix s w) ws = None" by (simp add: find_None_noPrefix)
  then show ?thesis by (simp add: trimLeftRunes.simps[of ws s])
qed

lemma trimLeftRunes_drop: "\<exists>k. trimLeftRunes ws s = drop k s"
proof (induction ws s rule: trimLeftRunes.induct)
  case (1 ws s)
  show ?case
  proof (cases "find (\<lambda>w. HasPrefix s w) ws")
    case None
    then have "trimLeftRunes ws s = drop 0 s" by (simp add: trimLeftRunes.simps[of ws s])
    then show ?thesis by blast
  next
    case (Some w)
    show ?thesis
    proof (cases "w = []")
      case True
      with Some have "trimLeftRunes ws s = drop 0 s" by (simp add: trimLeftRunes.simps[of ws s])
      then show ?thesis by blast
    next
      case False
      from "1.IH"[OF Some False] obtain k where
        "trimLeftRunes ws (drop (length w) s) = drop k (drop (length w) s)" by blast
      with Some False have "trimLeftRunes ws s = drop (k + length w) s"
        by (simp add: trimLeftRunes.simps[of ws s] add.commute)
      then show ?thesis by blast
    qed
  qed
qed

lemma rev_drop_rev: "rev (drop j (rev t)) = take (length t - j) t"
  by (simp add: rev_drop)

lemma HasPrefix_take: "HasPrefix (take m t) w \<Longrightarrow> HasPrefix t w"
proof -
  assume h: "HasPrefix (take m t) w"
  then have e: "take (length w) (take m t) = w" by (simp add: HasPrefix_def)
  then have "length (take (length w) (take m t)) = length w" by simp
  then have "length w \<le> m" by simp
  with e have "take (length w) t = w" by (simp add: min_def)
  then show ?thesis by (simp add: HasPrefix_def)
qed

lemma noSpaceRunes_empty: "[] \<notin> set spaceRunes" "[] \<notin> set (map rev spaceRunes)"
  by (simp_all add: spaceRunes_def)

lemma TrimSpace_take_drop: "\<exists>k m. TrimSpace s = take m (drop k s)"
proof -
  obtain k where k: "trimLeftSpace s = drop k s"
    using trimLeftRunes_drop[of spaceRunes s] by (auto simp: trimLeftSpace_def)
  obtain j where j: "trimLeftRunes (map rev spaceRunes) (rev (drop k s)) = drop j (rev (drop k s))"
    using trimLeftRunes_drop by blast
  have "TrimSpace s = rev (drop j (rev (drop k s)))"
    by (simp add: TrimSpace_def trimRightSpace_def k j)
  also have "\<dots> = take (length (drop k s) - j) (drop k s)"
    by (rule rev_drop_rev)
  finally show ?thesis by blast
qed

lemma trimmed_TrimSpace: "trimmed (TrimSpace s)"
proof -
  let ?t = "trimLeftSpace s"
  have t: "noPrefix spaceRunes ?t"
    by (simp add: trimLeftSpace_def trimLeftRunes_noPrefix noSpaceRunes_empty)
  let ?r = "trimLeftRunes (map rev spaceRunes) (rev ?t)"
  have r: "noPrefix (map rev spaceRunes) ?r"
    by (rule trimLeftRunes_noPrefix) (rule noSpaceRunes_empty)
  obtain j where j: "?r = drop j (rev ?t)" using trimLeftRunes_drop by blast
  have ts: "TrimSpace s = rev ?r" by (simp add: TrimSpace_def trimRightSpace_def)
  have "rev ?r = take (length ?t - j) ?t" unfolding j by (rule rev_drop_rev)
  then have "noPrefix spaceRunes (rev ?r)"
    using t HasPrefix_take unfolding noPrefix_def by metis
  with r ts show ?thesis by (simp add: trimmed_def leftOK_def rightOK_def)
qed

lemma TrimSpace_trimmed: "trimmed s \<Longrightarrow> TrimSpace s = s"
  by (simp add: trimmed_def leftOK_def rightOK_def TrimSpace_def trimLeftSpace_def
      trimRightSpace_def trimLeftRunes_id)

lemma TrimSpace_idem: "TrimSpace (TrimSpace s) = TrimSpace s"
  by (simp add: TrimSpace_trimmed trimmed_TrimSpace)

section \<open>Prefixes, occurrences and separators\<close>

lemma HasPrefix_iff: "HasPrefix s p = (\<exists>b. s = p @ b)"
proof
  assume "HasPrefix s p"
  then have "take (length p) s = p" by (simp add: HasPrefix_def)
  then have "s = p @ drop (length p) s" by (metis append_take_drop_id)
  then show "\<exists>b. s = p @ b" by blast
next
  assume "\<exists>b. s = p @ b"
  then show "HasPrefix s p" by (auto simp: HasPrefix_def)
qed

lemma noPrefix_Cons:
  assumes "c \<notin> hd ` set ws" and "[] \<notin> set ws"
  shows "noPrefix ws (c # s)"
  unfolding noPrefix_def
proof
  fix w assume w: "w \<in> set ws"
  show "\<not> HasPrefix (c # s) w"
  proof
    assume "HasPrefix (c # s) w"
    then obtain b where b: "c # s = w @ b" by (auto simp: HasPrefix_iff)
    from w assms(2) have "w \<noteq> []" by auto
    with b have "hd w = c" by (cases w) auto
    with w assms(1) show False by force
  qed
qed

lemma noPrefix_append:
  assumes np: "noPrefix ws x" and ne: "x \<noteq> []"
    and y: "y = [] \<or> hd y \<notin> \<Union>(set ` tl ` set ws)"
  shows "noPrefix ws (x @ y)"
  unfolding noPrefix_def
proof
  fix w assume w: "w \<in> set ws"
  show "\<not> HasPrefix (x @ y) w"
  proof
    assume "HasPrefix (x @ y) w"
    then obtain b where b: "x @ y = w @ b" by (auto simp: HasPrefix_iff)
    show False
    proof (cases "length w \<le> length x")
      case True
      with b have "take (length w) x = w" by (metis append_eq_append_conv_if append_eq_conv_conj)
      then have "HasPrefix x w" by (simp add: HasPrefix_def)
      with np w show False by (simp add: noPrefix_def)
    next
      case False
      with b obtain u where u: "w = x @ u" "u \<noteq> []" "y = u @ b"
        by (auto simp: append_eq_append_conv2)
      then have "hd y = hd u" by (cases u) auto
      moreover from u ne have "hd u \<in> set (tl w)" by (cases x; cases u) auto
      ultimately have "hd y \<in> set (tl w)" by simp
      with w have "hd y \<in> \<Union>(set ` tl ` set ws)" by auto
      with y u show False by auto
    qed
  qed
qed

lemma plainByte_heads:
  "plainByte c \<Longrightarrow> c \<notin> hd ` set spaceRunes \<and> c \<notin> hd ` set (map rev spaceRunes)"
  by (auto simp: spaceRunes_def plainByte_def byte_def)

lemma asciiByte_tails:
  "asciiByte c \<Longrightarrow> c \<notin> \<Union>(set ` tl ` set spaceRunes) \<and>
     c \<notin> \<Union>(set ` tl ` set (map rev spaceRunes))"
  by (auto simp: spaceRunes_def asciiByte_def byte_def)

lemma leftOK_Cons: "plainByte c \<Longrightarrow> leftOK (c # s)"
  unfolding leftOK_def using plainByte_heads noSpaceRunes_empty(1) by (intro noPrefix_Cons) auto

lemma rightOK_snoc: "plainByte c \<Longrightarrow> rightOK (s @ [c])"
  unfolding rightOK_def using plainByte_heads noSpaceRunes_empty(2)
  by (simp only: rev_append rev.simps append_Nil append_Cons) (intro noPrefix_Cons, auto)

lemma leftOK_append:
  "leftOK x \<Longrightarrow> x \<noteq> [] \<Longrightarrow> y = [] \<or> asciiByte (hd y) \<Longrightarrow> leftOK (x @ y)"
  unfolding leftOK_def using asciiByte_tails by (intro noPrefix_append) auto

lemma rightOK_append:
  assumes "rightOK y" and "y \<noteq> []" and "x = [] \<or> asciiByte (last x)"
  shows "rightOK (x @ y)"
proof -
  have "noPrefix (map rev spaceRunes) (rev y @ rev x)"
  proof (rule noPrefix_append)
    show "noPrefix (map rev spaceRunes) (rev y)" using assms(1) by (simp add: rightOK_def)
    show "rev y \<noteq> []" using assms(2) by simp
    show "rev x = [] \<or> hd (rev x) \<notin> \<Union>(set ` tl ` set (map rev spaceRunes))"
      using assms(3) asciiByte_tails by (auto simp: hd_rev)
  qed
  then show ?thesis by (simp add: rightOK_def)
qed

lemma Index_append_char: "c \<notin> set a \<Longrightarrow> Index (a @ c # b) [c] = Some (length a)"
  by (induction a) (auto simp: HasPrefix_single)

lemma Contains_Nil: "Contains [] p = (p = [])"
  by (simp add: Contains_def)

lemma Contains_Cons: "Contains (c # s) p = (HasPrefix (c # s) p \<or> Contains s p)"
  by (simp add: Contains_def)

lemma Contains_iff: "Contains s p = (\<exists>a b. s = a @ p @ b)"
proof (induction s)
  case Nil
  then show ?case by (auto simp: Contains_Nil)
next
  case (Cons c s)
  show ?case
  proof
    assume "Contains (c # s) p"
    then consider "HasPrefix (c # s) p" | "Contains s p" by (auto simp: Contains_Cons)
    then show "\<exists>a b. c # s = a @ p @ b"
    proof cases
      case 1
      then obtain b where "c # s = [] @ p @ b" by (auto simp: HasPrefix_iff)
      then show ?thesis by blast
    next
      case 2
      with Cons.IH obtain a b where "s = a @ p @ b" by blast
      then have "c # s = (c # a) @ p @ b" by simp
      then show ?thesis by blast
    qed
  next
    assume "\<exists>a b. c # s = a @ p @ b"
    then obtain a b where ab: "c # s = a @ p @ b" by blast
    show "Contains (c # s) p"
    proof (cases a)
      case Nil
      with ab have "HasPrefix (c # s) p" by (auto simp: HasPrefix_iff)
      then show ?thesis by (simp add: Contains_Cons)
    next
      case (Cons x a')
      with ab have "s = a' @ p @ b" by simp
      with Cons.IH have "Contains s p" by blast
      then show ?thesis by (simp add: Contains_Cons)
    qed
  qed
qed

lemma Contains_infix:
  "\<not> Contains s p \<Longrightarrow> \<not> Contains (take m (drop k s)) p"
proof
  assume n: "\<not> Contains s p" and c: "Contains (take m (drop k s)) p"
  from c obtain a b where ab: "take m (drop k s) = a @ p @ b" by (auto simp: Contains_iff)
  have "s = take k s @ take m (drop k s) @ drop m (drop k s)"
    by (simp only: append_take_drop_id)
  with ab have "s = (take k s @ a) @ p @ (b @ drop m (drop k s))" by simp
  then have "Contains s p" unfolding Contains_iff by blast
  with n show False by blast
qed

lemma Index_first:
  "Index s p = Some k \<Longrightarrow> p \<noteq> [] \<Longrightarrow> \<not> Contains (take k s) p"
proof (induction s arbitrary: k)
  case Nil
  then show ?case by simp
next
  case (Cons c s)
  show ?case
  proof (cases "HasPrefix (c # s) p")
    case True
    with Cons.prems show ?thesis by (simp add: Contains_Nil)
  next
    case False
    with Cons.prems obtain j where j: "Index s p = Some j" "k = Suc j" by auto
    from Cons.IH[OF j(1) Cons.prems(2)] have 1: "\<not> Contains (take j s) p" .
    have 2: "\<not> HasPrefix (c # take j s) p"
      using False HasPrefix_take[of "Suc j" "c # s" p] by auto
    from 1 2 j(2) show ?thesis by (simp add: Contains_Cons)
  qed
qed

lemma Index_at_boundary:
  assumes p: "p = x # q" and x: "x \<notin> set q" and a: "\<not> Contains a p"
  shows "Index (a @ p @ b) p = Some (length a)"
  using a
proof (induction a)
  case Nil
  have "HasPrefix (p @ b) p" by (auto simp: HasPrefix_iff)
  then show ?case by (cases "p @ b") (simp_all add: p)
next
  case (Cons c a)
  from Cons.prems have na: "\<not> Contains a p" and nh: "\<not> HasPrefix (c # a) p"
    by (simp_all add: Contains_Cons)
  have "\<not> HasPrefix (c # a @ p @ b) p"
  proof
    assume "HasPrefix (c # a @ p @ b) p"
    then obtain r where r: "c # a @ p @ b = p @ r" by (auto simp: HasPrefix_iff)
    show False
    proof (cases "length p \<le> length (c # a)")
      case True
      with r have "take (length p) (c # a) = p"
        by (metis append_Cons append_eq_append_conv_if append_eq_conv_conj)
      with nh show False by (simp add: HasPrefix_def)
    next
      case False
      then have lt: "length (c # a) < length p" by simp
      from r have "(c # a @ p @ b) ! length (c # a) = (p @ r) ! length (c # a)" by simp
      moreover have "(c # a @ p @ b) ! length (c # a) = x"
        using nth_append_length[of "c # a" x "q @ b"] by (simp add: p)
      moreover have "(p @ r) ! length (c # a) = q ! length a"
        using lt by (simp add: nth_append p)
      moreover have "length a < length q" using lt by (simp add: p)
      ultimately have "x \<in> set q" by (metis nth_mem)
      with x show False by blast
    qed
  qed
  with Cons.IH[OF na] show ?case by simp
qed

lemma Split_no_sep: "c \<notin> set x \<Longrightarrow> Split x c = [x]"
  by (induction x) auto

lemma Split_append: "c \<notin> set x \<Longrightarrow> Split (x @ c # r) c = x # Split r c"
  by (induction x) auto

lemma Split_Join:
  "xs \<noteq> [] \<Longrightarrow> \<forall>x\<in>set xs. c \<notin> set x \<Longrightarrow> Split (Join xs [c]) c = xs"
proof (induction xs "[c]" rule: Join.induct)
  case 1
  then show ?case by simp
next
  case (2 x)
  then show ?case by (simp add: Split_no_sep)
next
  case (3 x y xs)
  then show ?case by (simp add: Split_append)
qed

lemma Split_elems: "x \<in> set (Split s c) \<Longrightarrow> c \<notin> set x"
proof (induction s arbitrary: x)
  case Nil
  then show ?case by simp
next
  case (Cons d s)
  then show ?case
    by (cases "Split s c") (auto simp: Split_nonempty split: if_splits)
qed

section \<open>What the parsers guarantee\<close>

lemma applyModifier_PromptText: "PromptText (applyModifier a p) = PromptText a"
  by (simp add: applyModifier_def Let_def split: option.splits)

lemma foldl_applyModifier_PromptText: "PromptText (foldl applyModifier a ps) = PromptText a"
  by (induction ps arbitrary: a) (simp_all add: applyModifier_PromptText)

lemma applyModifier_wfConstraints:
  assumes a: "\<forall>c\<in>set (Constraints a). wfConstraint c" and p: "CHR '';'' \<notin> set p"
  shows "\<forall>c\<in>set (Constraints (applyModifier a p)). wfConstraint c"
proof (cases "Index (TrimSpace p) '':''")
  case None
  with a show ?thesis by (simp add: applyModifier_def Let_def)
next
  case (Some i)
  let ?n = "TrimSpace (take i (TrimSpace p))"
  let ?v = "TrimSpace (drop (i + 1) (TrimSpace p))"
  have "set ?v \<subseteq> set p"
    using set_TrimSpace[of "drop (i + 1) (TrimSpace p)"] set_drop_subset[of "i + 1" "TrimSpace p"]
      set_TrimSpace[of p] by blast
  with p have "CHR '';'' \<notin> set ?v" by blast
  then have "knownConstraints ?n \<Longrightarrow> wfConstraint \<lparr>CName = ?n, CValue = ?v\<rparr>"
    by (simp add: wfConstraint_def trimmed_TrimSpace)
  with a Some show ?thesis by (auto simp: applyModifier_def Let_def)
qed

lemma foldl_applyModifier_wfConstraints:
  "\<forall>c\<in>set (Constraints a). wfConstraint c \<Longrightarrow> \<forall>p\<in>set ps. CHR '';'' \<notin> set p \<Longrightarrow>
     \<forall>c\<in>set (Constraints (foldl applyModifier a ps)). wfConstraint c"
proof (induction ps arbitrary: a)
  case Nil
  then show ?case by simp
next
  case (Cons p ps)
  have "\<forall>c\<in>set (Constraints (applyModifier a p)). wfConstraint c"
    using Cons.prems by (intro applyModifier_wfConstraints) auto
  from Cons.IH[OF this] Cons.prems(2) show ?case by simp
qed

lemma enumWithoutOptions_fields:
  "PromptText (enumWithoutOptions b) = PromptText b"
  "Constraints (enumWithoutOptions b) = Constraints b"
  by (simp_all add: enumWithoutOptions_def)

lemma ParseAnnotation_wf:
  assumes "ParseAnnotation s = Inr a"
  shows "wfAnnotation a"
proof -
  let ?content = "TrimPrefix (TrimSpace s) ''#prompt:''"
  let ?t = "TrimSpace (takeWhile (\<lambda>c. c \<noteq> CHR ''|'') ?content)"
  let ?parts = "Split (afterFirstPipe ?content) CHR '';''"
  let ?b = "parsedModifiers ?t ?parts"
  from assms have a: "a = enumWithoutOptions ?b"
    by (auto simp: ParseAnnotation_cases split: if_splits)
  have pt: "PromptText a = ?t"
    by (simp add: a enumWithoutOptions_fields parsedModifiers_def foldl_applyModifier_PromptText)
  have "set ?t \<subseteq> set (takeWhile (\<lambda>c. c \<noteq> CHR ''|'') ?content)" by (rule set_TrimSpace)
  then have nopipe: "CHR ''|'' \<notin> set ?t" using set_takeWhileD by fastforce
  have parts: "\<forall>p\<in>set (tl ?parts). CHR '';'' \<notin> set p"
    using Split_elems[of _ "afterFirstPipe ?content" "CHR '';''"]
    by (metis list.set_sel(2) Split_nonempty)
  have cs: "\<forall>c\<in>set (Constraints a). wfConstraint c"
    unfolding a enumWithoutOptions_fields parsedModifiers_def
    by (rule foldl_applyModifier_wfConstraints) (simp_all add: parts)
  have en: "Type a = TypeEnum \<longrightarrow> GetConstraint a ''options'' \<noteq> []"
    using ParseAnnotation_enum_options[OF assms] by blast
  from pt nopipe cs en show ?thesis by (simp add: wfAnnotation_def trimmed_TrimSpace)
qed

lemma parseValue_infix: "\<not> Contains s p \<Longrightarrow> p \<noteq> [] \<Longrightarrow> \<not> Contains (parseValue s) p"
proof -
  assume n: "\<not> Contains s p" and p: "p \<noteq> []"
  obtain k m where t: "TrimSpace s = take m (drop k s)" using TrimSpace_take_drop by blast
  from n have nt: "\<not> Contains (TrimSpace s) p" unfolding t by (rule Contains_infix)
  from nt have "\<not> Contains (take (length (TrimSpace s) - 2) (drop 1 (TrimSpace s))) p"
    by (rule Contains_infix)
  with nt p show ?thesis by (simp add: parseValue_def Let_def Contains_Nil)
qed

lemma TrimSpace_infix: "\<not> Contains s p \<Longrightarrow> \<not> Contains (TrimSpace s) p"
proof -
  assume n: "\<not> Contains s p"
  obtain k m where t: "TrimSpace s = take m (drop k s)" using TrimSpace_take_drop by blast
  from n show ?thesis unfolding t by (rule Contains_infix)
qed

lemma lineVariable_wf:
  assumes "lineVariable k l = Some v"
  shows "wfVariable v"
proof -
  obtain name val ann err where t: "TokenizeLine l = (name, val, ann, err)"
    by (cases "TokenizeLine l") auto
  from assms t have nm: "name \<noteq> []"
    by (cases "err = None"; cases "name = []") (simp_all add: lineVariable_def)
  from TokenizeLine_name[OF t nm] obtain i where
    er: "err = None" and pat: "variableNamePattern name" and
    c: "(case Index (drop (i + 1) (TrimSpace l)) '' #prompt:'' of
                 None \<Rightarrow> val = parseValue (TrimSpace (drop (i + 1) (TrimSpace l))) \<and> ann = []
               | Some k \<Rightarrow>
                   val = parseValue (TrimSpace (take k (drop (i + 1) (TrimSpace l)))) \<and>
                   ann = TrimSpace (drop (k + 1) (drop (i + 1) (TrimSpace l))))"
    by blast
  let ?rest = "drop (i + 1) (TrimSpace l)"
  have nv: "\<not> Contains val '' #prompt:''"
  proof (cases "Index ?rest '' #prompt:''")
    case None
    then have "\<not> Contains ?rest '' #prompt:''" by (simp add: Contains_def)
    then have "\<not> Contains (parseValue (TrimSpace ?rest)) '' #prompt:''"
      by (intro parseValue_infix TrimSpace_infix) simp_all
    with c None show ?thesis by simp
  next
    case (Some j)
    then have "\<not> Contains (take j ?rest) '' #prompt:''" by (intro Index_first) simp_all
    then have "\<not> Contains (parseValue (TrimSpace (take j ?rest))) '' #prompt:''"
      by (intro parseValue_infix TrimSpace_infix) simp_all
    with c Some show ?thesis by simp
  qed
  have v: "Name v = name" "Value v = TrimSpace val"
    "Annotation v = (if ann \<noteq> [] then (case ParseAnnotation ann of Inl e \<Rightarrow> None | Inr a \<Rightarrow> Some a)
                     else None)"
    using assms t nm er by (auto simp: lineVariable_def)
  have an: "\<forall>a. Annotation v = Some a \<longrightarrow> wfAnnotation a"
    using ParseAnnotation_wf unfolding v(3) by (auto split: if_splits sum.splits)
  from pat nv an show ?thesis
    by (simp add: wfVariable_def v(1,2) trimmed_TrimSpace TrimSpace_infix)
qed

lemma trimmed_local: "trimmed ''local''"
  by code_simp

lemma specEnvironments_wf:
  "\<forall>e\<in>set (specEnvironments v). e \<noteq> [] \<and> trimmed e \<and> CHR '','' \<notin> set e"
proof
  fix e assume "e \<in> set (specEnvironments v)"
  then obtain x where x: "x \<in> set (Split v CHR '','')" "e = TrimSpace x" "e \<noteq> []"
    by (auto simp: specEnvironments_def)
  from Split_elems[OF x(1)] set_TrimSpace[of x] x(2) have "CHR '','' \<notin> set e" by blast
  with x show "e \<noteq> [] \<and> trimmed e \<and> CHR '','' \<notin> set e" by (simp add: trimmed_TrimSpace)
qed

lemma ParseConfig_wf: "wfConfig (ParseConfig ls)"
  unfolding wfConfig_def ParseConfig_Environments
  using specEnvironments_wf trimmed_local by auto

section \<open>Parsing what the formatters write\<close>

lemma trimmed_Nil: "trimmed []"
  by code_simp

lemma trimmed_plain: "s \<noteq> [] \<Longrightarrow> plainByte (hd s) \<Longrightarrow> plainByte (last s) \<Longrightarrow> trimmed s"
proof -
  assume ne: "s \<noteq> []" and h: "plainByte (hd s)" and l: "plainByte (last s)"
  from ne h have "leftOK s" using leftOK_Cons[of "hd s" "tl s"] by simp
  moreover from ne l have "rightOK s" using rightOK_snoc[of "last s" "butlast s"] by simp
  ultimately show ?thesis by (simp add: trimmed_def)
qed

lemma known_name:
  assumes "knownConstraints n"
  shows "n \<noteq> []" "plainByte (hd n)" "plainByte (last n)" "CHR '':'' \<notin> set n"
    "CHR '';'' \<notin> set n"
  using assms by (auto simp: knownConstraints_def plainByte_def byte_def)

lemma plain_chars:
  "plainByte CHR ''#''" "plainByte CHR '':''" "asciiByte CHR '':''" "asciiByte CHR '';''"
  "asciiByte CHR ''|''" "asciiByte CHR ''=''" "asciiByte CHR '' ''" "asciiByte CHR '',''"
  "plainByte CHR ''=''"
  by (simp_all add: plainByte_def asciiByte_def byte_def)

lemma formatConstraint_ok:
  assumes "wfConstraint c"
  shows "formatConstraint c \<noteq> []" "trimmed (formatConstraint c)"
    "CHR '';'' \<notin> set (formatConstraint c)" "CHR '':'' \<in> set (formatConstraint c)"
proof -
  from assms have k: "knownConstraints (CName c)" and tv: "trimmed (CValue c)"
    and sv: "CHR '';'' \<notin> set (CValue c)" by (simp_all add: wfConstraint_def)
  note n = known_name[OF k]
  show "formatConstraint c \<noteq> []" using n(1) by (simp add: formatConstraint_def)
  show "CHR '';'' \<notin> set (formatConstraint c)" using n(5) sv by (simp add: formatConstraint_def)
  show "CHR '':'' \<in> set (formatConstraint c)" by (simp add: formatConstraint_def)
  have l: "leftOK (formatConstraint c)"
    using leftOK_Cons[OF n(2), of "tl (CName c) @ '':'' @ CValue c"] n(1)
    by (cases "CName c") (simp_all add: formatConstraint_def)
  have r: "rightOK (formatConstraint c)"
  proof (cases "CValue c = []")
    case True
    then show ?thesis using rightOK_snoc[OF plain_chars(2), of "CName c"]
      by (simp add: formatConstraint_def)
  next
    case False
    have "rightOK ((CName c @ '':'') @ CValue c)"
      using tv False plain_chars(3) by (intro rightOK_append) (simp_all add: trimmed_def)
    then show ?thesis by (simp add: formatConstraint_def)
  qed
  from l r show "trimmed (formatConstraint c)" by (simp add: trimmed_def)
qed

lemma applyModifier_formatConstraint:
  assumes "wfConstraint c"
  shows "applyModifier a (formatConstraint c) = a\<lparr>Constraints := Constraints a @ [c]\<rparr>"
proof -
  from assms have k: "knownConstraints (CName c)" and tv: "trimmed (CValue c)"
    by (simp_all add: wfConstraint_def)
  note n = known_name[OF k]
  note f = formatConstraint_ok[OF assms]
  have t: "TrimSpace (formatConstraint c) = formatConstraint c"
    by (rule TrimSpace_trimmed[OF f(2)])
  have no: "formatConstraint c \<noteq> ''optional''" "formatConstraint c \<noteq> ''secret''"
    using f(4) by auto
  have ix: "Index (formatConstraint c) '':'' = Some (length (CName c))"
    using Index_append_char[OF n(4), of "CValue c"] by (simp add: formatConstraint_def)
  have tn: "TrimSpace (CName c) = CName c"
    by (rule TrimSpace_trimmed[OF trimmed_plain[OF n(1,2,3)]])
  have tk: "take (length (CName c)) (formatConstraint c) = CName c"
    "drop (length (CName c) + 1) (formatConstraint c) = CValue c"
    by (simp_all add: formatConstraint_def)
  show ?thesis
    using f(1) no k
    by (simp add: applyModifier_def t ix tk tn TrimSpace_trimmed[OF tv] del: One_nat_def)
qed

lemma foldl_applyModifier_constraints:
  "\<forall>c\<in>set cs. wfConstraint c \<Longrightarrow>
     foldl applyModifier a (map formatConstraint cs) = a\<lparr>Constraints := Constraints a @ cs\<rparr>"
proof (induction cs arbitrary: a)
  case Nil
  then show ?case by simp
next
  case (Cons c cs)
  then show ?case by (simp add: applyModifier_formatConstraint)
qed

lemma applyModifier_flags:
  "applyModifier a ''optional'' = a\<lparr>IsOptional := True\<rparr>"
  "applyModifier a ''secret'' = a\<lparr>IsSecret := True\<rparr>"
proof -
  have "TrimSpace ''optional'' = ''optional''" "TrimSpace ''secret'' = ''secret''" by code_simp+
  then show "applyModifier a ''optional'' = a\<lparr>IsOptional := True\<rparr>"
    "applyModifier a ''secret'' = a\<lparr>IsSecret := True\<rparr>"
    by (simp_all add: applyModifier_def)
qed

lemma ParseVariableType_names:
  "ParseVariableType (TrimSpace ''string'') = TypeString"
  "ParseVariableType (TrimSpace ''int'') = TypeInt"
  "ParseVariableType (TrimSpace ''numeric'') = TypeNumeric"
  "ParseVariableType (TrimSpace ''boolean'') = TypeBoolean"
  "ParseVariableType (TrimSpace ''enum'') = TypeEnum"
  "ParseVariableType (TrimSpace ''object'') = TypeObject"
  by code_simp+

lemma String_ok:
  "String t \<noteq> []" "rightOK (String t)" "CHR '';'' \<notin> set (String t)"
  "ParseVariableType (TrimSpace (String t)) = t"
proof -
  show "String t \<noteq> []" by (cases t) simp_all
  show "CHR '';'' \<notin> set (String t)" by (cases t) simp_all
  have "plainByte (last (String t))" by (cases t) (simp_all add: plainByte_def byte_def)
  then show "rightOK (String t)"
    using rightOK_snoc[of "last (String t)" "butlast (String t)"] \<open>String t \<noteq> []\<close> by simp
  show "ParseVariableType (TrimSpace (String t)) = t"
    by (cases t) (simp_all add: ParseVariableType_names)
qed

lemma Join_rightOK:
  "parts \<noteq> [] \<Longrightarrow> \<forall>p\<in>set parts. p \<noteq> [] \<and> rightOK p \<Longrightarrow>
     Join parts '';'' \<noteq> [] \<and> rightOK (Join parts '';'')"
proof (induction parts "'';''" rule: Join.induct)
  case 1
  then show ?case by simp
next
  case (2 x)
  then show ?case by simp
next
  case (3 x y xs)
  then have ih: "Join (y # xs) '';'' \<noteq> []" "rightOK (Join (y # xs) '';'')" by simp_all
  have "rightOK ((x @ '';'') @ Join (y # xs) '';'')"
    using ih plain_chars(4) by (intro rightOK_append) simp_all
  with ih(1) show ?case by simp
qed

lemma FormatAnnotation_parts:
  "FormatAnnotation a = ''#prompt:'' @ PromptText a @ ''|'' @ Join (annotationParts a) '';''"
  by (simp add: FormatAnnotation_def annotationParts_def formatConstraint_def[abs_def])

lemma flags_rightOK: "rightOK ''optional''" "rightOK ''secret''"
  by code_simp+

lemma annotationParts_ok:
  assumes "wfAnnotation a"
  shows "\<forall>p\<in>set (annotationParts a). p \<noteq> [] \<and> rightOK p \<and> CHR '';'' \<notin> set p"
proof -
  from assms have "\<forall>c\<in>set (Constraints a). wfConstraint c" by (simp add: wfAnnotation_def)
  then have "\<forall>p\<in>set (map formatConstraint (Constraints a)).
      p \<noteq> [] \<and> rightOK p \<and> CHR '';'' \<notin> set p"
    using formatConstraint_ok by (auto simp: trimmed_def)
  then show ?thesis
    using String_ok(1,2,3)[of "Type a"] flags_rightOK
    by (auto simp: annotationParts_def)
qed

lemma FormatAnnotation_trimmed:
  assumes "wfAnnotation a"
  shows "trimmed (FormatAnnotation a)" "FormatAnnotation a \<noteq> []"
proof -
  have ne: "annotationParts a \<noteq> []" by (simp add: annotationParts_def)
  from Join_rightOK[OF ne] annotationParts_ok[OF assms]
  have j: "Join (annotationParts a) '';'' \<noteq> []" "rightOK (Join (annotationParts a) '';'')"
    by auto
  have "rightOK ((''#prompt:'' @ PromptText a @ ''|'') @ Join (annotationParts a) '';'')"
    using j plain_chars(5) by (intro rightOK_append) simp_all
  then have r: "rightOK (FormatAnnotation a)" by (simp add: FormatAnnotation_parts)
  have l: "leftOK (FormatAnnotation a)"
    using leftOK_Cons[OF plain_chars(1)] by (simp add: FormatAnnotation_parts)
  from l r show "trimmed (FormatAnnotation a)" by (simp add: trimmed_def)
  show "FormatAnnotation a \<noteq> []" by (simp add: FormatAnnotation_parts)
qed

lemma takeWhile_sep: "c \<notin> set x \<Longrightarrow> takeWhile (\<lambda>d. d \<noteq> c) (x @ c # r) = x"
  by (induction x) auto

lemma dropWhile_sep: "c \<notin> set x \<Longrightarrow> dropWhile (\<lambda>d. d \<noteq> c) (x @ c # r) = c # r"
  by (induction x) auto

lemma ParseAnnotation_FormatAnnotation:
  assumes wf: "wfAnnotation a"
  shows "ParseAnnotation (FormatAnnotation a) = Inr a"
proof -
  let ?parts = "annotationParts a"
  let ?content = "PromptText a @ ''|'' @ Join ?parts '';''"
  from wf have pt: "trimmed (PromptText a)" "CHR ''|'' \<notin> set (PromptText a)"
    and cs: "\<forall>c\<in>set (Constraints a). wfConstraint c"
    and en: "Type a = TypeEnum \<longrightarrow> GetConstraint a ''options'' \<noteq> []"
    by (simp_all add: wfAnnotation_def)
  have ts: "TrimSpace (FormatAnnotation a) = FormatAnnotation a"
    by (rule TrimSpace_trimmed[OF FormatAnnotation_trimmed(1)[OF wf]])
  have hp: "HasPrefix (FormatAnnotation a) ''#prompt:''"
    by (simp add: FormatAnnotation_parts HasPrefix_def)
  have tp: "TrimPrefix (FormatAnnotation a) ''#prompt:'' = ?content"
    using hp by (simp add: TrimPrefix_def) (simp add: FormatAnnotation_parts)
  have pipe: "CHR ''|'' \<in> set ?content" by simp
  have tw: "takeWhile (\<lambda>c. c \<noteq> CHR ''|'') ?content = PromptText a"
    using pt(2) by (simp add: takeWhile_sep)
  have dw: "afterFirstPipe ?content = Join ?parts '';''"
    using pt(2) by (simp add: afterFirstPipe_def dropWhile_sep)
  have ne: "?parts \<noteq> []" by (simp add: annotationParts_def)
  have sp: "Split (Join ?parts '';'') CHR '';'' = ?parts"
    using annotationParts_ok[OF wf] by (intro Split_Join[OF ne]) auto
  have fs: "firstSegment (Join ?parts '';'') = String (Type a)"
    unfolding firstSegment_def hd_Split[symmetric] sp by (simp add: annotationParts_def)
  have pm: "parsedModifiers (PromptText a) ?parts = a"
    using cs
    by (simp add: parsedModifiers_def annotationParts_def String_ok(4)
        foldl_applyModifier_constraints applyModifier_flags)
  have ew: "enumWithoutOptions a = a" using en by (simp add: enumWithoutOptions_def)
  show ?thesis
    unfolding ParseAnnotation_cases ts tp tw dw fs sp pm ew TrimSpace_trimmed[OF pt(1)]
    using hp pipe String_ok(1)[of "Type a"] by simp
qed

lemma nameChar_plain:
  "isUpper d \<or> isDigit d \<or> d = CHR ''_'' \<Longrightarrow> plainByte d \<and> d \<noteq> CHR ''='' \<and> d \<noteq> CHR ''#''"
  by (auto simp: isUpper_def isDigit_def plainByte_def byte_def)

lemma variableName_chars:
  assumes "variableNamePattern n"
  shows "n \<noteq> []" "plainByte (hd n)" "plainByte (last n)" "CHR ''='' \<notin> set n"
    "hd n \<noteq> CHR ''#''"
proof -
  from assms obtain c cs where n: "n = c # cs" "isUpper c"
    "list_all (\<lambda>d. isUpper d \<or> isDigit d \<or> d = CHR ''_'') cs"
    by (cases n) (auto simp: variableNamePattern_def)
  then have all: "\<forall>d\<in>set n. plainByte d \<and> d \<noteq> CHR ''='' \<and> d \<noteq> CHR ''#''"
    using nameChar_plain by (auto simp: list_all_iff)
  show "n \<noteq> []" using n by simp
  then show "plainByte (hd n)" "plainByte (last n)" "hd n \<noteq> CHR ''#''" using all by auto
  show "CHR ''='' \<notin> set n" using all by blast
qed

lemma TokenizeLine_decomposed:
  assumes t: "TrimSpace line = line" and l: "line = name @ CHR ''='' # rest"
    and p: "variableNamePattern name"
  shows "TokenizeLine line =
     (case Index rest '' #prompt:'' of
        None \<Rightarrow> (name, parseValue (TrimSpace rest), [], None)
      | Some k \<Rightarrow> (name, parseValue (TrimSpace (take k rest)), TrimSpace (drop (k + 1) rest), None))"
proof -
  note n = variableName_chars[OF p]
  have ne: "line \<noteq> []" using l by simp
  have "hd line = hd name" using l n(1) by simp
  then have nc: "\<not> HasPrefix line ''#''" using ne n(5) by (cases line) (auto simp: HasPrefix_single)
  have ix: "Index line ''='' = Some (length name)"
    unfolding l by (rule Index_append_char[OF n(4)])
  have tk: "take (length name) line = name" "drop (length name + 1) line = rest"
    by (simp_all add: l)
  have tn: "TrimSpace name = name" by (rule TrimSpace_trimmed[OF trimmed_plain[OF n(1,2,3)]])
  show ?thesis
    using ne nc n(1) p
    by (simp add: TokenizeLine_def t ix tk tn Let_def del: One_nat_def split: option.splits)
qed

lemma FormatVariable_shape:
  "FormatVariable v True =
     Name v @ CHR ''='' # Value v @
       (case Annotation v of None \<Rightarrow> [] | Some a \<Rightarrow> '' '' @ FormatAnnotation a)"
  by (simp add: FormatVariable_def split: option.splits)

lemma FormatVariable_trimmed:
  assumes wf: "wfVariable v"
  shows "TrimSpace (FormatVariable v True) = FormatVariable v True"
proof -
  from wf have p: "variableNamePattern (Name v)" and tv: "trimmed (Value v)"
    and an: "\<forall>a. Annotation v = Some a \<longrightarrow> wfAnnotation a"
    by (simp_all add: wfVariable_def)
  note n = variableName_chars[OF p]
  have l: "leftOK (FormatVariable v True)"
    using leftOK_Cons[OF n(2), of "tl (FormatVariable v True)"] n(1)
    by (cases "Name v") (simp_all add: FormatVariable_shape)
  have r: "rightOK (FormatVariable v True)"
  proof (cases "Annotation v")
    case None
    show ?thesis
    proof (cases "Value v = []")
      case True
      with None show ?thesis
        using rightOK_snoc[OF plain_chars(9), of "Name v"] by (simp add: FormatVariable_shape)
    next
      case False
      have "rightOK ((Name v @ ''='') @ Value v)"
        using tv False plain_chars(6) by (intro rightOK_append) (simp_all add: trimmed_def)
      with None show ?thesis by (simp add: FormatVariable_shape)
    qed
  next
    case (Some a)
    with an have wa: "wfAnnotation a" by simp
    have "rightOK ((Name v @ ''='' @ Value v @ '' '') @ FormatAnnotation a)"
      using FormatAnnotation_trimmed[OF wa] plain_chars(7)
      by (intro rightOK_append) (simp_all add: trimmed_def)
    with Some show ?thesis by (simp add: FormatVariable_shape)
  qed
  from l r show ?thesis by (simp add: TrimSpace_trimmed trimmed_def)
qed

lemma TokenizeLine_FormatVariable:
  assumes wf: "wfVariable v" and uq: "parseValue (Value v) = Value v"
  shows "TokenizeLine (FormatVariable v True) = (Name v, Value v, annotationSuffix v, None)"
proof -
  from wf have p: "variableNamePattern (Name v)" and tv: "trimmed (Value v)"
    and nc: "\<not> Contains (Value v) '' #prompt:''"
    and an: "\<forall>a. Annotation v = Some a \<longrightarrow> wfAnnotation a"
    by (simp_all add: wfVariable_def)
  let ?rest = "Value v @ (case Annotation v of None \<Rightarrow> [] | Some a \<Rightarrow> '' '' @ FormatAnnotation a)"
  have tl: "TokenizeLine (FormatVariable v True) =
     (case Index ?rest '' #prompt:'' of
        None \<Rightarrow> (Name v, parseValue (TrimSpace ?rest), [], None)
      | Some k \<Rightarrow> (Name v, parseValue (TrimSpace (take k ?rest)),
                   TrimSpace (drop (k + 1) ?rest), None))"
    by (rule TokenizeLine_decomposed[OF FormatVariable_trimmed[OF wf] FormatVariable_shape p])
  have tvv: "TrimSpace (Value v) = Value v" by (rule TrimSpace_trimmed[OF tv])
  show ?thesis
  proof (cases "Annotation v")
    case None
    then have r: "?rest = Value v" by simp
    have "Index (Value v) '' #prompt:'' = None" using nc by (simp add: Contains_def)
    then show ?thesis unfolding tl r by (simp add: tvv uq annotationSuffix_def None)
  next
    case (Some a)
    with an have wa: "wfAnnotation a" by simp
    obtain X where X: "FormatAnnotation a = ''#prompt:'' @ X"
      by (simp add: FormatAnnotation_parts)
    have r: "?rest = Value v @ '' #prompt:'' @ X" by (simp add: Some X)
    have ix: "Index (Value v @ '' #prompt:'' @ X) '' #prompt:'' = Some (length (Value v))"
      by (rule Index_at_boundary[OF _ _ nc, of "CHR '' ''" "''#prompt:''"]) simp_all
    have tk: "take (length (Value v)) (Value v @ '' #prompt:'' @ X) = Value v"
      "drop (length (Value v) + 1) (Value v @ '' #prompt:'' @ X) = FormatAnnotation a"
      by (simp_all add: X)
    have ta: "TrimSpace (FormatAnnotation a) = FormatAnnotation a"
      by (rule TrimSpace_trimmed[OF FormatAnnotation_trimmed(1)[OF wa]])
    show ?thesis unfolding tl r ix
      by (simp only: option.case tk ta tvv uq annotationSuffix_def Some)
  qed
qed

lemma lineVariable_FormatVariable:
  assumes wf: "wfVariable v" and uq: "parseValue (Value v) = Value v"
  shows "lineVariable k (FormatVariable v True) = Some (v\<lparr>LineNumber := k, IsSet := True\<rparr>)"
proof -
  from wf have p: "variableNamePattern (Name v)" and tv: "trimmed (Value v)"
    and an: "\<forall>a. Annotation v = Some a \<longrightarrow> wfAnnotation a"
    by (simp_all add: wfVariable_def)
  note t = TokenizeLine_FormatVariable[OF wf uq]
  have c: "Contains (FormatVariable v True) ''=''"
    by (simp add: Contains_def Index_char_None FormatVariable_shape)
  have a: "(if annotationSuffix v \<noteq> []
            then (case ParseAnnotation (annotationSuffix v) of Inl e \<Rightarrow> None | Inr ann \<Rightarrow> Some ann)
            else None) = Annotation v"
  proof (cases "Annotation v")
    case None
    then show ?thesis by (simp add: annotationSuffix_def)
  next
    case (Some a)
    with an have wa: "wfAnnotation a" by simp
    from Some FormatAnnotation_trimmed(2)[OF wa] ParseAnnotation_FormatAnnotation[OF wa]
    show ?thesis by (simp add: annotationSuffix_def)
  qed
  show ?thesis
    using variableName_chars(1)[OF p]
    by (simp add: lineVariable_def t a c TrimSpace_trimmed[OF tv])
qed

lemma Join_comma_ok:
  "es \<noteq> [] \<Longrightarrow> \<forall>e\<in>set es. e \<noteq> [] \<and> trimmed e \<Longrightarrow>
     Join es '','' \<noteq> [] \<and> trimmed (Join es '','')"
proof (induction es "'',''" rule: Join.induct)
  case 1
  then show ?case by simp
next
  case (2 x)
  then show ?case by simp
next
  case (3 x y xs)
  then have ih: "Join (y # xs) '','' \<noteq> []" "trimmed (Join (y # xs) '','')" by simp_all
  from 3 have x: "x \<noteq> []" "trimmed x" by simp_all
  have "rightOK ((x @ '','') @ Join (y # xs) '','')"
    using ih plain_chars(8) by (intro rightOK_append) (simp_all add: trimmed_def)
  moreover have "leftOK (x @ ('','' @ Join (y # xs) '',''))"
    using x plain_chars(8) by (intro leftOK_append) (simp_all add: trimmed_def)
  ultimately show ?case using x by (simp add: trimmed_def)
qed

lemma appendEnvs_trimmed:
  "\<forall>e\<in>set es. e \<noteq> [] \<and> trimmed e \<Longrightarrow> appendEnvs acc es = acc @ es"
proof -
  assume a: "\<forall>e\<in>set es. e \<noteq> [] \<and> trimmed e"
  then have "map TrimSpace es = es" by (simp add: TrimSpace_trimmed map_idI)
  moreover from a have "filter (\<lambda>e. e \<noteq> []) es = es" by (simp add: filter_id_conv)
  ultimately show ?thesis by (simp add: appendEnvs_filter)
qed

lemma config_keys:
  "TrimSpace ''environments'' = ''environments''"
  "ParseConfigLine ''#krakenv:strict=true'' = (''strict'', ''true'')"
  "IsConfigLine ''#krakenv:strict=true''"
  by code_simp+

lemma environments_line:
  assumes wf: "wfConfig c" and ne: "Environments c \<noteq> []"
  shows "ParseConfigLine (FormatConfigLine ''environments'' (Join (Environments c) '',''))
           = (''environments'', Join (Environments c) '','')"
    and "IsConfigLine (FormatConfigLine ''environments'' (Join (Environments c) '',''))"
proof -
  let ?J = "Join (Environments c) '',''"
  let ?line = "FormatConfigLine ''environments'' ?J"
  from wf have es: "\<forall>e\<in>set (Environments c). e \<noteq> [] \<and> trimmed e"
    by (simp add: wfConfig_def)
  from Join_comma_ok[OF ne es] have j: "?J \<noteq> []" "trimmed ?J" by simp_all
  have l: "leftOK ?line"
    using leftOK_Cons[OF plain_chars(1)] by (simp add: FormatConfigLine_def)
  have "rightOK ((''#krakenv:environments='') @ ?J)"
    using j plain_chars(6) by (intro rightOK_append) (simp_all add: trimmed_def)
  then have r: "rightOK ?line" by (simp add: FormatConfigLine_def)
  from l r have t: "TrimSpace ?line = ?line" by (simp add: TrimSpace_trimmed trimmed_def)
  have hp: "HasPrefix ?line ''#krakenv:''" by (simp add: FormatConfigLine_def HasPrefix_def)
  then show "IsConfigLine ?line" by (simp add: IsConfigLine_def t)
  have tp: "TrimPrefix ?line ''#krakenv:'' = ''environments'' @ CHR ''='' # ?J"
    using hp by (simp add: TrimPrefix_def) (simp add: FormatConfigLine_def)
  have ix: "Index (''environments'' @ CHR ''='' # ?J) ''='' = Some (length ''environments'')"
    by (rule Index_append_char) simp
  have sp: "SplitN2 (''environments'' @ CHR ''='' # ?J) ''='' = [''environments'', ?J]"
    unfolding SplitN2_def ix by simp
  show "ParseConfigLine ?line = (''environments'', ?J)"
    unfolding ParseConfigLine_def t Let_def tp sp using hp
    by (simp add: config_keys(1) TrimSpace_trimmed[OF j(2)])
qed

lemma ParseConfig_FormatConfig:
  assumes wf: "wfConfig c" and ne: "Environments c \<noteq> []" and dp: "DistPath c = ''.env.dist''"
  shows "ParseConfig (FormatConfig c) = c" "FormatConfig c \<noteq> []"
    "\<forall>l\<in>set (FormatConfig c). IsConfigLine l"
proof -
  let ?J = "Join (Environments c) '',''"
  let ?line = "FormatConfigLine ''environments'' ?J"
  note e = environments_line[OF wf ne]
  from wf have es: "\<forall>e\<in>set (Environments c). e \<noteq> [] \<and> trimmed e"
    and nc: "\<forall>e\<in>set (Environments c). CHR '','' \<notin> set e"
    by (simp_all add: wfConfig_def)
  have sp: "Split ?J CHR '','' = Environments c" by (rule Split_Join[OF ne nc])
  have a1: "applyConfigLine DefaultConfig ?line = DefaultConfig\<lparr>Environments := Environments c\<rparr>"
    by (simp add: applyConfigLine_def e(1) sp appendEnvs_trimmed[OF es])
  have a2: "applyConfigLine x (FormatConfigLine ''strict'' ''true'') = x\<lparr>Strict := True\<rparr>" for x
    by (simp add: applyConfigLine_def FormatConfigLine_def config_keys(2))
  have fc: "FormatConfig c = ?line # (if Strict c then [FormatConfigLine ''strict'' ''true''] else [])"
    using ne by (simp add: FormatConfig_def)
  show "FormatConfig c \<noteq> []" by (simp add: fc)
  show "\<forall>l\<in>set (FormatConfig c). IsConfigLine l"
    using e(2) config_keys(3) by (simp add: fc FormatConfigLine_def)
  have r: "ParseConfig (FormatConfig c) =
      (if Strict c then (DefaultConfig\<lparr>Environments := Environments c\<rparr>)\<lparr>Strict := True\<rparr>
       else DefaultConfig\<lparr>Environments := Environments c\<rparr>)"
    by (simp add: ParseConfig_def fc a1 a2)
  show "ParseConfig (FormatConfig c) = c"
    unfolding r using dp by (cases c) (simp add: DefaultConfig_def)
qed

section \<open>Writing a document back and parsing it again\<close>

lemma parseLoop_config_lines:
  "\<forall>l\<in>set ls. IsConfigLine l \<Longrightarrow>
     parseLoop n ls st = Inr (st\<lparr>configLines := configLines st @ ls\<rparr>)"
proof (induction ls arbitrary: n st)
  case Nil
  then show ?case by simp
next
  case (Cons l ls)
  then show ?case by (simp add: parseLine_def)
qed

lemma parseLoop_formatted:
  assumes wf: "\<forall>v\<in>set vs. wfVariable v \<and> parseValue (Value v) = Value v"
  shows "positionsOK st \<Longrightarrow> distinct (map Name vs) \<Longrightarrow>
     set (map Name vs) \<inter> set (map Name (Variables (envFile st))) = {} \<Longrightarrow>
     \<exists>st'. parseLoop n (map (\<lambda>v. FormatVariable v True) vs) st = Inr st' \<and>
           map core (Variables (envFile st')) = map core (Variables (envFile st)) @ map core vs \<and>
           configLines st' = configLines st \<and> Config (envFile st') = Config (envFile st)"
  using wf
proof (induction vs arbitrary: n st)
  case Nil
  then show ?case by simp
next
  case (Cons v vs)
  let ?v' = "v\<lparr>LineNumber := n + 1, IsSet := True\<rparr>"
  from Cons.prems(4) have wv: "wfVariable v" "parseValue (Value v) = Value v" by simp_all
  have lv: "lineVariable (n + 1) (FormatVariable v True) = Some ?v'"
    by (rule lineVariable_FormatVariable[OF wv])
  have new: "Name ?v' \<notin> set (map Name (Variables (envFile st)))"
    using Cons.prems(3) by auto
  from storeVariable_new[OF Cons.prems(1) new] obtain st1 where
    s1: "storeVariable ?v' st = Inr st1" "positionsOK st1"
        "Variables (envFile st1) = Variables (envFile st) @ [?v']"
        "configLines st1 = configLines st" "Config (envFile st1) = Config (envFile st)"
    by blast
  have pl: "parseLine n (FormatVariable v True) st = Inr st1"
    using parseLine_variable[OF lv] s1(1) by simp
  have d: "distinct (map Name vs)" using Cons.prems(2) by simp
  have dj: "set (map Name vs) \<inter> set (map Name (Variables (envFile st1))) = {}"
    using Cons.prems(2,3) by (auto simp: s1(3))
  have w: "\<forall>v\<in>set vs. wfVariable v \<and> parseValue (Value v) = Value v"
    using Cons.prems(4) by simp
  from Cons.IH[OF s1(2) d dj w, of "Suc n"] obtain st' where
    st': "parseLoop (Suc n) (map (\<lambda>v. FormatVariable v True) vs) st1 = Inr st'"
      "map core (Variables (envFile st')) = map core (Variables (envFile st1)) @ map core vs"
      "configLines st' = configLines st1" "Config (envFile st') = Config (envFile st1)"
    by blast
  have "core ?v' = core v" by (simp add: core_def)
  with st' s1 pl show ?case by simp
qed

lemma parseLine_Config:
  "parseLine n l st = Inr st' \<Longrightarrow> Config (envFile st') = Config (envFile st)"
proof (cases "lineVariable (n + 1) l")
  case None
  assume a: "parseLine n l st = Inr st'"
  show ?thesis
  proof (cases "IsConfigLine l")
    case True
    with a show ?thesis by (auto simp: parseLine_def)
  next
    case False
    note nc = this
    show ?thesis
    proof (cases "IsComment l \<and> \<not> IsAnnotationLine l")
      case True
      with nc a show ?thesis
        by (cases "ExtractCommentText l = []") (auto simp: parseLine_def Let_def)
    next
      case False
      with nc a None show ?thesis
        by (cases "IsEmptyLine l") (auto simp: parseLine_def)
    qed
  qed
next
  case (Some v)
  assume a: "parseLine n l st = Inr st'"
  with parseLine_variable[OF Some] have "storeVariable v st = Inr st'" by simp
  then show ?thesis
    by (auto simp: storeVariable_def split: option.splits if_splits)
qed

lemma parseLoop_Config:
  "parseLoop n ls st = Inr st' \<Longrightarrow> Config (envFile st') = Config (envFile st)"
proof (induction ls arbitrary: n st)
  case Nil
  then show ?case by simp
next
  case (Cons l ls)
  then obtain st1 where s1: "parseLine n l st = Inr st1" "parseLoop (Suc n) ls st1 = Inr st'"
    by (auto split: sum.splits)
  from Cons.IH[OF s1(2)] parseLine_Config[OF s1(1)] show ?case by simp
qed

lemma parseLines_Config:
  assumes "parseLines ls p = Inr d"
  shows "Config d = None \<or> (\<exists>cl. Config d = Some (ParseConfig cl))"
proof -
  from assms obtain st where st: "parseLoop 0 ls (initialState p) = Inr st"
    by (auto simp: parseLines_def split: sum.splits)
  from parseLoop_Config[OF st] have c: "Config (envFile st) = None"
    by (simp add: initialState_def)
  from assms st c show ?thesis by (auto simp: parseLines_def split: if_splits)
qed

text \<open>
  C4. A document produced by parsing, in which no value is itself wrapped in matching
  quotes and the config, if there is one, has environments and the default \<open>distPath\<close>,
  is written back and parsed again to an equivalent document: the same variables with the
  same names, values and annotations in the same order, and the same config.
\<close>

theorem roundtrip_unquoted_default_distPath:
  "parseLines ls p = Inr d \<Longrightarrow>
   \<forall>v\<in>set (Variables d). parseValue (Value v) = Value v \<Longrightarrow>
   \<forall>c. Config d = Some c \<longrightarrow> Environments c \<noteq> [] \<and> DistPath c = ''.env.dist'' \<Longrightarrow>
     \<exists>d'. parseLines (serialize d) p' = Inr d' \<and> equivalent d d'"
proof -
  assume pd: "parseLines ls p = Inr d"
    and uq: "\<forall>v\<in>set (Variables d). parseValue (Value v) = Value v"
    and cf: "\<forall>c. Config d = Some c \<longrightarrow> Environments c \<noteq> [] \<and> DistPath c = ''.env.dist''"
  have "\<exists>d0. parseLines ls p = Inr d0 \<and> distinct (map Name (Variables d0)) \<and>
             (\<forall>v\<in>set (Variables d0). wfVariable v)"
    by (rule parseLines_all) (rule lineVariable_wf)
  with pd have dn: "distinct (map Name (Variables d))"
    and wf: "\<forall>v\<in>set (Variables d). wfVariable v" by auto
  let ?cfg = "configBlock d"
  let ?vs = "Variables d"
  have cl: "\<forall>l\<in>set ?cfg. IsConfigLine l"
  proof (cases "Config d")
    case None
    then show ?thesis by (simp add: configBlock_def)
  next
    case (Some c)
    with parseLines_Config[OF pd] have "wfConfig c" using ParseConfig_wf by auto
    with cf Some show ?thesis using ParseConfig_FormatConfig(3) by (simp add: configBlock_def)
  qed
  let ?st1 = "(initialState p')\<lparr>configLines := configLines (initialState p') @ ?cfg\<rparr>"
  have l1: "parseLoop 0 ?cfg (initialState p') = Inr ?st1"
    by (rule parseLoop_config_lines[OF cl])
  have ok1: "positionsOK ?st1"
    using positionsOK_cong[of ?st1 "initialState p'"] initialState_ok by simp
  have e1: "Variables (envFile ?st1) = []" "configLines ?st1 = ?cfg" "Config (envFile ?st1) = None"
    by (simp_all add: initialState_def)
  have "\<exists>st'. parseLoop (0 + length ?cfg) (map (\<lambda>v. FormatVariable v True) ?vs) ?st1 = Inr st' \<and>
           map core (Variables (envFile st')) = map core (Variables (envFile ?st1)) @ map core ?vs \<and>
           configLines st' = configLines ?st1 \<and> Config (envFile st') = Config (envFile ?st1)"
    using wf uq ok1 dn by (intro parseLoop_formatted) (simp_all add: initialState_def)
  then obtain st' where
    st': "parseLoop (0 + length ?cfg) (map (\<lambda>v. FormatVariable v True) ?vs) ?st1 = Inr st'"
      "map core (Variables (envFile st')) = map core ?vs"
      "configLines st' = ?cfg" "Config (envFile st') = None"
    unfolding e1 by auto
  have lp: "parseLoop 0 (serialize d) (initialState p') = Inr st'"
    unfolding serialize_def parseLoop_append l1 using st'(1) by simp
  let ?d' = "if length ?cfg > 0 then (envFile st')\<lparr>Config := Some (ParseConfig ?cfg)\<rparr>
             else envFile st'"
  have pl: "parseLines (serialize d) p' = Inr ?d'"
    by (simp add: parseLines_def lp st'(3))
  have vs: "map core (Variables ?d') = map core ?vs" using st'(2) by simp
  have cg: "Config ?d' = Config d"
  proof (cases "Config d")
    case None
    then show ?thesis using st'(4) by (simp add: configBlock_def)
  next
    case (Some c)
    with parseLines_Config[OF pd] have wc: "wfConfig c" using ParseConfig_wf by auto
    from cf Some have ne: "Environments c \<noteq> []" and dp: "DistPath c = ''.env.dist''" by simp_all
    from ParseConfig_FormatConfig(1,2)[OF wc ne dp] Some show ?thesis
      by (simp add: configBlock_def)
  qed
  from pl vs cg show ?thesis unfolding equivalent_def by blast
qed

theorem roundtrip_counterexample:
  "parseLines quotedExample ''.env'' =
     Inr \<lparr>Path = ''.env'',
          Variables = [\<lparr>Name = ''A'', Value = [CHR 0x27, CHR ''x'', CHR 0x27], Annotation = None,
                        LineNumber = 1, IsSet = True\<rparr>],
          Config = None, Comments = []\<rparr>
   \<and> serialize \<lparr>Path = ''.env'',
          Variables = [\<lparr>Name = ''A'', Value = [CHR 0x27, CHR ''x'', CHR 0x27], Annotation = None,
                        LineNumber = 1, IsSet = True\<rparr>],
          Config = None, Comments = []\<rparr> =
       [[CHR ''A'', CHR ''='', CHR 0x27, CHR ''x'', CHR 0x27]]
   \<and> parseLines [[CHR ''A'', CHR ''='', CHR 0x27, CHR ''x'', CHR 0x27]] ''.env'' =
     Inr \<lparr>Path = ''.env'',
          Variables = [\<lparr>Name = ''A'', Value = ''x'', Annotation = None,
                        LineNumber = 1, IsSet = True\<rparr>],
          Config = None, Comments = []\<rparr>
   \<and> \<not> equivalent
        \<lparr>Path = ''.env'',
          Variables = [\<lparr>Name = ''A'', Value = [CHR 0x27, CHR ''x'', CHR 0x27], Annotation = None,
                        LineNumber = 1, IsSet = True\<rparr>],
          Config = None, Comments = []\<rparr>
        \<lparr>Path = ''.env'',
          Variables = [\<lparr>Name = ''A'', Value = ''x'', Annotation = None,
                        LineNumber = 1, IsSet = True\<rparr>],
          Config = None, Comments = []\<rparr>"
  by code_simp

text \<open>
  The config is not always kept either: \<open>FormatConfig\<close> writes no \<open>distPath\<close> line and
  no line for an empty list of environments, so a \<open>distPath\<close> other than the default comes
  back as the default, and a config without environments comes back as no config at all.
\<close>

lemma roundtrip_config_not_kept:
  "parseLines [''#krakenv:distPath=conf/.env.dist''] ''.env'' =
     Inr \<lparr>Path = ''.env'', Variables = [],
          Config = Some \<lparr>Environments = [''local''], Strict = False,
                          DistPath = ''conf/.env.dist''\<rparr>, Comments = []\<rparr>"
  "parseLines (serialize \<lparr>Path = ''.env'', Variables = [],
          Config = Some \<lparr>Environments = [''local''], Strict = False,
                          DistPath = ''conf/.env.dist''\<rparr>, Comments = []\<rparr>) ''.env'' =
     Inr \<lparr>Path = ''.env'', Variables = [],
          Config = Some \<lparr>Environments = [''local''], Strict = False,
                          DistPath = ''.env.dist''\<rparr>, Comments = []\<rparr>"
  "parseLines [''#krakenv:environments=''] ''.env'' =
     Inr \<lparr>Path = ''.env'', Variables = [],
          Config = Some \<lparr>Environments = [], Strict = False, DistPath = ''.env.dist''\<rparr>,
          Comments = []\<rparr>"
  "parseLines (serialize \<lparr>Path = ''.env'', Variables = [],
          Config = Some \<lparr>Environments = [], Strict = False, DistPath = ''.env.dist''\<rparr>,
          Comments = []\<rparr>) ''.env'' =
     Inr \<lparr>Path = ''.env'', Variables = [], Config = None, Comments = []\<rparr>"
  by code_simp+

theorem roundtrip_unquoted_default_distPath_witness:
  "\<exists>d. parseLines scenario ''.env.dist'' = Inr d \<and> length (Variables d) = 2 \<and>
      (\<forall>v\<in>set (Variables d). parseValue (Value v) = Value v) \<and>
      (\<forall>c. Config d = Some c \<longrightarrow> Environments c \<noteq> [] \<and> DistPath c = ''.env.dist'') \<and>
      (\<exists>d'. parseLines (serialize d) ''.env'' = Inr d' \<and> equivalent d d')"
proof -
  let ?d = "\<lparr>Path = ''.env.dist'',
        Variables =
          [\<lparr>Name = ''DB_HOST'', Value = ''localhost'',
            Annotation = Some \<lparr>PromptText = ''Host?'', Type = TypeString, Constraints = [],
                                IsOptional = False, IsSecret = False\<rparr>,
            LineNumber = 2, IsSet = True\<rparr>,
           \<lparr>Name = ''DB_PORT'', Value = [],
            Annotation = Some \<lparr>PromptText = ''Port?'', Type = TypeInt,
                                Constraints = [\<lparr>CName = ''min'', CValue = ''1''\<rparr>,
                                               \<lparr>CName = ''max'', CValue = ''65535''\<rparr>],
                                IsOptional = False, IsSecret = False\<rparr>,
            LineNumber = 3, IsSet = True\<rparr>],
        Config = Some \<lparr>Environments = [''local'', ''prod''], Strict = False,
                        DistPath = ''.env.dist''\<rparr>,
        Comments = []\<rparr>"
  have p: "parseLines scenario ''.env.dist'' = Inr ?d" by code_simp
  have u: "\<forall>v\<in>set (Variables ?d). parseValue (Value v) = Value v" by code_simp
  have c: "\<forall>c. Config ?d = Some c \<longrightarrow> Environments c \<noteq> [] \<and> DistPath c = ''.env.dist''"
    by simp
  from roundtrip_unquoted_default_distPath [OF p u c, of "''.env''"] p u c
  show ?thesis by (intro exI[of _ ?d]) simp
qed

end
